theory Spec2Isabelle
  imports Complex_Main
begin

section \<open>The snow effect of snow.js\<close>

text \<open>
  The script keeps a list of \<open>Controller\<close> objects, one per configuration layer. Every
  controller owns an array of \<open>Snowflake\<close> objects; a snowflake wraps one \<open>div\<close> element
  whose inline style carries its position. The browser is the environment: the element
  tree, the inline styles and the layout of the elements, \<open>Math.random\<close>, \<open>Date.now\<close> and
  the timers.

  JavaScript numbers are modelled as \<^typ>\<open>real\<close>: the arithmetic of the script is exact,
  and there is no NaN and no infinity.
\<close>

subsection \<open>The browser: inline styles and layout\<close>

text \<open>
  A snowflake has no position field of its own. The setters assign \<open>value + 'px'\<close> to
  \<open>element.style.left\<close> and \<open>element.style.top\<close>, and the getters read the number back
  from there. An inline style does not keep the string that is assigned to it: the
  browser parses the length and gives it back with six significant digits
  (\<open>1234567px\<close> reads \<open>1.23457e+06px\<close>, \<open>100.9999px\<close> reads \<open>101px\<close>). \<open>stored v\<close> is
  the number that \<open>Number(style.left.replace('px', ''))\<close> returns after \<open>v + 'px'\<close> was
  assigned: \<open>v\<close> rounded to six significant digits. This is so for the lengths that a
  style holds at all, those of a magnitude within the range of a single-precision
  number; the positions of the script are far inside that range.

  \<open>exponent10 v\<close> is the decimal exponent of \<open>v\<close>, found by moving the decimal point
  until one digit stands before it.
\<close>

fun exponent_search :: "nat \<Rightarrow> real \<Rightarrow> int \<Rightarrow> int" where
  "exponent_search 0 m e = e"
| "exponent_search (Suc fuel) m e =
     (if 10 \<le> m then exponent_search fuel (m / 10) (e + 1)
      else if m < 1 then exponent_search fuel (m * 10) (e - 1)
      else e)"

definition exponent10 :: "real \<Rightarrow> int" where
  "exponent10 v = exponent_search 700 \<bar>v\<bar> 0"

definition stored :: "real \<Rightarrow> real" where
  "stored v =
     (if v = 0 then 0
      else (let e = exponent10 v
            in if 5 \<le> e then of_int (round (v / 10 ^ nat (e - 5))) * 10 ^ nat (e - 5)
               else of_int (round (v * 10 ^ nat (5 - e))) / 10 ^ nat (5 - e)))"

text \<open>
  The layout places a box in units of 1/64 of a pixel, cutting the rest off:
  \<open>layout x\<close> is the coordinate that \<open>getBoundingClientRect()\<close> reports for a box whose
  style coordinate is \<open>x\<close> (\<open>30.3\<close> gives \<open>30.296875\<close>, \<open>110.005\<close> gives \<open>110\<close>).
\<close>

definition layout :: "real \<Rightarrow> real" where
  "layout x = (if 0 \<le> x then of_int \<lfloor>x * 64\<rfloor> / 64 else - (of_int \<lfloor>- x * 64\<rfloor> / 64))"

lemma exponent_search_numeral:
  "exponent_search (numeral k) m e =
     (if 10 \<le> m then exponent_search (pred_numeral k) (m / 10) (e + 1)
      else if m < 1 then exponent_search (pred_numeral k) (m * 10) (e - 1)
      else e)"
  by (simp add: numeral_eq_Suc)

lemmas stored_eval = stored_def exponent10_def exponent_search_numeral Let_def round_def

lemma exponent_search_le:
  "m < 10 ^ j \<Longrightarrow> 1 \<le> j \<Longrightarrow> exponent_search fuel m e \<le> e + int j - 1"
proof (induction fuel arbitrary: m e j)
  case 0
  then show ?case by simp
next
  case (Suc fuel)
  consider "10 \<le> m" | "m < 1" | "1 \<le> m" "m < 10"
    by linarith
  then show ?case
  proof cases
    case 1
    with Suc.prems have "2 \<le> j"
      by (cases j; cases "j - 1") auto
    then obtain i where j: "j = Suc i" and i: "1 \<le> i"
      by (cases j) auto
    from Suc.prems j have "m / 10 < 10 ^ i"
      by simp
    from Suc.IH [OF this i, of "e + 1"] 1 j show ?thesis
      by simp
  next
    case 2
    then have "m * 10 < 10 ^ 1"
      by simp
    from Suc.IH [OF this, of "e - 1"] 2 Suc.prems(2) show ?thesis
      by simp
  next
    case 3
    with Suc.prems(2) show ?thesis
      by simp
  qed
qed

lemma exponent10_le: "\<bar>v\<bar> < 10 ^ 6 \<Longrightarrow> exponent10 v \<le> 5"
  using exponent_search_le [of "\<bar>v\<bar>" 6 700 0] by (simp add: exponent10_def)

lemma stored_small:
  assumes "\<bar>v\<bar> < 10 ^ 6"
  shows "stored v = of_int (round (v * 10 ^ nat (5 - exponent10 v))) / 10 ^ nat (5 - exponent10 v)"
proof (cases "v = 0")
  case True
  then show ?thesis by (simp add: stored_def)
next
  case False
  from exponent10_le [OF assms] consider "exponent10 v = 5" | "exponent10 v < 5"
    by linarith
  then show ?thesis
    using False by cases (simp_all add: stored_def Let_def)
qed

text \<open>A whole number of fewer than seven digits is kept as it is.\<close>

lemma stored_of_int: "\<bar>n\<bar> < 10 ^ 6 \<Longrightarrow> stored (of_int n) = of_int n"
proof -
  assume a: "\<bar>n\<bar> < 10 ^ 6"
  let ?d = "nat (5 - exponent10 (of_int n))"
  have "\<bar>of_int n :: real\<bar> < 10 ^ 6"
    using a by (metis of_int_abs of_int_less_iff of_int_numeral of_int_power)
  then have "stored (of_int n) = of_int (round (of_int n * 10 ^ ?d :: real)) / 10 ^ ?d"
    by (rule stored_small)
  also have "of_int n * 10 ^ ?d = (of_int (n * 10 ^ ?d) :: real)"
    by simp
  also have "round (of_int (n * 10 ^ ?d) :: real) = n * 10 ^ ?d"
    by (rule round_of_int)
  finally show ?thesis
    by simp
qed

lemma stored_of_nat: "n < 10 ^ 6 \<Longrightarrow> stored (real n) = real n"
  using stored_of_int [of "int n"] by simp

lemma stored_numeral:
  "(numeral k :: int) < 10 ^ 6 \<Longrightarrow> stored (numeral k) = numeral k"
  "(numeral k :: int) < 10 ^ 6 \<Longrightarrow> stored (- numeral k) = - numeral k"
  "stored 0 = 0"
  "stored 1 = 1"
  using stored_of_int [of "numeral k"] stored_of_int [of "- numeral k"] stored_of_int [of 1]
  by (simp_all add: stored_def)

text \<open>Rounding does not carry a position over a whole number that bounds it.\<close>

lemma stored_le_int:
  assumes "x \<le> of_int n" and "0 \<le> n" and "n < 10 ^ 6"
  shows "stored x \<le> of_int n"
proof (cases "\<bar>x\<bar> < 10 ^ 6")
  case True
  let ?d = "nat (5 - exponent10 x)"
  have "x * 10 ^ ?d \<le> of_int n * 10 ^ ?d"
    using assms(1) by (simp add: mult_right_mono)
  also have "\<dots> = of_int (n * 10 ^ ?d)"
    by simp
  finally have "round (x * 10 ^ ?d) \<le> round (of_int (n * 10 ^ ?d) :: real)"
    by (rule round_mono)
  then have "round (x * 10 ^ ?d) \<le> n * 10 ^ ?d"
    by (simp only: round_of_int)
  then have "(of_int (round (x * 10 ^ ?d)) :: real) \<le> of_int (n * 10 ^ ?d)"
    by (simp only: of_int_le_iff)
  then have "of_int (round (x * 10 ^ ?d)) / 10 ^ ?d \<le> (of_int n :: real)"
    by (simp add: divide_le_eq)
  then show ?thesis
    by (simp only: stored_small [OF True])
next
  case False
  with assms have neg: "x \<le> - (10 ^ 6)"
    by (auto simp: abs_if split: if_splits)
  then have x: "x < 0" by simp
  have r: "round (x * c) \<le> 0" if "0 \<le> c" for c :: real
  proof -
    have "x * c \<le> 0" using x that by (simp add: mult_nonpos_nonneg)
    then have "round (x * c) \<le> round (0 :: real)" by (rule round_mono)
    then show ?thesis by simp
  qed
  have r': "round (x / c) \<le> 0" if "0 < c" for c :: real
    using r [of "1 / c"] that by simp
  have "stored x \<le> 0"
    using x r r'
    by (auto simp: stored_def Let_def mult_le_0_iff divide_le_0_iff)
  with assms(2) show ?thesis
    by (meson of_int_0_le_iff order_trans)
qed

lemma layout_of_int: "layout (of_int n) = of_int n"
proof -
  have "\<lfloor>of_int n * 64 :: real\<rfloor> = n * 64"
    by (metis floor_of_int of_int_mult of_int_numeral)
  moreover have "\<lfloor>- of_int n * 64 :: real\<rfloor> = - n * 64"
    by (metis floor_of_int of_int_minus of_int_mult of_int_numeral)
  ultimately show ?thesis
    by (simp add: layout_def)
qed

lemma layout_le: "x \<le> y \<Longrightarrow> 0 \<le> y \<Longrightarrow> layout x \<le> y"
proof (cases "0 \<le> x")
  case True
  assume xy: "x \<le> y"
  have "of_int \<lfloor>x * 64\<rfloor> \<le> x * 64"
    by (rule of_int_floor_le)
  with xy have "of_int \<lfloor>x * 64\<rfloor> \<le> y * 64"
    by linarith
  then have "of_int \<lfloor>x * 64\<rfloor> / 64 \<le> y"
    by simp
  with True show ?thesis
    by (simp only: layout_def if_True)
next
  case False
  assume y: "0 \<le> y"
  have "0 \<le> - x * 64"
    using False by simp
  then have "0 \<le> \<lfloor>- x * 64\<rfloor>"
    by simp
  then have "(0::real) \<le> of_int \<lfloor>- x * 64\<rfloor> / 64"
    by simp
  with y have "- (of_int \<lfloor>- x * 64\<rfloor> / 64) \<le> y"
    by linarith
  with False show ?thesis
    by (simp only: layout_def if_False)
qed

subsection \<open>The environment and the data\<close>

text \<open>
  A snowflake is its element: \<open>left_px\<close> and \<open>top_px\<close> are the lengths that the inline
  style of the element holds, in pixels, and \<open>blur_px\<close> the radius of its blur filter.
  An element is identified by the number of its creation.

  The environment holds the children of the container element, the number of elements
  created so far, and the values that successive calls of \<open>Math.random()\<close> and
  \<open>Date.now()\<close> return.

  \<open>LIMIT\<close> is a count: the layers of the configuration give 20 and 25.
\<close>

record CONFIG =
  LIMIT :: nat
  BLUR :: real
  FALL_RATE :: real
  SWAY_RATE :: real

record Snowflake =
  element :: nat
  left_px :: real
  top_px :: real
  blur_px :: real

record DOMRect =
  rect_x :: real
  rect_y :: real
  rect_width :: real
  rect_height :: real

record env =
  children :: "nat list"
  created :: nat
  random_values :: "nat \<Rightarrow> real"
  random_calls :: nat
  clock_values :: "nat \<Rightarrow> real"
  clock_calls :: nat

text \<open>
  A controller. \<open>interval\<close> tells whether the repeating timer of \<open>start()\<close> is armed
  (\<open>null\<close> otherwise). \<open>generators\<close> is not a field of the class: it lists the calls of
  the asynchronous \<open>generate()\<close> that are suspended at their \<open>await\<close>, each with the
  value of its loop variable \<open>i\<close>.
\<close>

record Controller =
  config :: CONFIG
  snowflakes :: "Snowflake list"
  document_width :: real
  document_height :: real
  active :: bool
  interval :: bool
  generators :: "nat list"

definition Math_random :: "env \<Rightarrow> real \<times> env" where
  "Math_random w = (random_values w (random_calls w), w\<lparr>random_calls := Suc (random_calls w)\<rparr>)"

definition Date_now :: "env \<Rightarrow> real \<times> env" where
  "Date_now w = (clock_values w (clock_calls w), w\<lparr>clock_calls := Suc (clock_calls w)\<rparr>)"

text \<open>\<open>getSine\<close>: \<open>amplitude * Math.sin(Date.now() * frequency) + verticalShift\<close>.\<close>

definition getSine :: "real \<Rightarrow> real \<Rightarrow> real \<Rightarrow> env \<Rightarrow> real \<times> env" where
  "getSine amplitude frequency verticalShift w =
     (let (now, w') = Date_now w
      in (amplitude * sin (now * frequency) + verticalShift, w'))"

subsection \<open>Snowflake\<close>

text \<open>
  \<^verbatim>\<open>
  get top()      { return Number(this.element.style.top.replace('px', '')); }
  set top(value) { this.element.style.top = value + 'px'; }
  \<close>
  and the same for \<open>left\<close>: a getter reads the length that the style holds, a setter
  assigns a length, which the style keeps as \<open>stored\<close> says.
\<close>

definition get_top :: "Snowflake \<Rightarrow> real" where
  "get_top s = top_px s"

definition set_top :: "real \<Rightarrow> Snowflake \<Rightarrow> Snowflake" where
  "set_top v s = s\<lparr>top_px := stored v\<rparr>"

definition get_left :: "Snowflake \<Rightarrow> real" where
  "get_left s = left_px s"

definition set_left :: "real \<Rightarrow> Snowflake \<Rightarrow> Snowflake" where
  "set_left v s = s\<lparr>left_px := stored v\<rparr>"

text \<open>
  The constructor creates a \<open>div\<close> of class \<open>snowflake\<close>, assigns \<open>x + 'px'\<close> and
  \<open>y + 'px'\<close> to its style and appends it to the container.
\<close>

definition new_Snowflake :: "real \<Rightarrow> real \<Rightarrow> real \<Rightarrow> env \<Rightarrow> Snowflake \<times> env" where
  "new_Snowflake x y blur w =
     (\<lparr>element = created w, left_px = stored x, top_px = stored y, blur_px = blur\<rparr>,
      w\<lparr>children := children w @ [created w], created := Suc (created w)\<rparr>)"

text \<open>
  \<open>bounds\<close>: \<open>getBoundingClientRect()\<close> of the element. The injected style sheet fixes the
  container at the origin of the viewport and gives a \<open>.snowflake\<close> an absolute position
  and a box of 10px by 10px, so the rectangle starts where the layout puts
  \<open>(left, top)\<close>.
\<close>

definition bounds :: "Snowflake \<Rightarrow> DOMRect" where
  "bounds s =
     \<lparr>rect_x = layout (left_px s), rect_y = layout (top_px s),
      rect_width = 10, rect_height = 10\<rparr>"

text \<open>\<open>element.remove()\<close> detaches the element from the container.\<close>

definition element_remove :: "nat \<Rightarrow> env \<Rightarrow> env" where
  "element_remove e w = w\<lparr>children := removeAll e (children w)\<rparr>"





subsection \<open>Array operations\<close>

text \<open>
  \<open>indexOf\<close> compares objects by identity, here the identity of the wrapped element; it
  returns \<open>-1\<close> when the object is not in the array. \<open>splice(start, 1)\<close> counts a negative
  \<open>start\<close> from the end and deletes at most one entry.
\<close>

fun indexOf :: "Snowflake list \<Rightarrow> Snowflake \<Rightarrow> int" where
  "indexOf [] s = - 1"
| "indexOf (y # ys) s =
     (if element y = element s then 0
      else (let k = indexOf ys s in if k < 0 then - 1 else k + 1))"

definition splice1 :: "int \<Rightarrow> 'a list \<Rightarrow> 'a list" where
  "splice1 start xs =
     (let len = int (length xs);
          actualStart = (if start < 0 then max (len + start) 0 else min start len)
      in take (nat actualStart) xs @ drop (Suc (nat actualStart)) xs)"

subsection \<open>Controller: spawn, remove, animate\<close>

text \<open>
  \<^verbatim>\<open>
  spawn() {
      this.snowflakes.push(new Snowflake(Math.random() * this.document.width, 0,
                                         this.body, this.config.BLUR));
  }
  remove(snowflake) {
      this.snowflakes.splice(this.snowflakes.indexOf(snowflake), 1);
      snowflake.element.remove();
  }
  \<close>
\<close>

definition spawn :: "env \<times> Controller \<Rightarrow> env \<times> Controller" where
  "spawn wc =
     (let (w, c) = wc;
          (r, w1) = Math_random w;
          (s, w2) = new_Snowflake (r * document_width c) 0 (BLUR (config c)) w1
      in (w2, c\<lparr>snowflakes := snowflakes c @ [s]\<rparr>))"

definition remove :: "Snowflake \<Rightarrow> env \<times> Controller \<Rightarrow> env \<times> Controller" where
  "remove s wc =
     (let (w, c) = wc
      in (element_remove (element s) w,
          c\<lparr>snowflakes := splice1 (indexOf (snowflakes c) s) (snowflakes c)\<rparr>))"

text \<open>
  \<^verbatim>\<open>
  animate() {
      for (const snowflake of this.snowflakes) {
          snowflake.left = aSocketSnow.getSine(1.0, 0.005, snowflake.left + this.config.SWAY_RATE);
          snowflake.top = snowflake.top + this.config.FALL_RATE;
          const bounds = snowflake.bounds;
          if (bounds.x > (this.document.width + bounds.width)
              || bounds.y > (this.document.height + bounds.height)) {
              this.remove(snowflake);
              this.spawn();
          }
      }
  }
  \<close>
  \<open>move\<close> is the two assignments, \<open>out_of_bounds\<close> the test, \<open>visit i\<close> the body of the loop
  for the snowflake at index \<open>i\<close>. The iterator of \<open>for ... of\<close> over an array keeps an
  index and compares it with the current length before every step, so the loop sees the
  array as \<open>remove\<close> and \<open>spawn\<close> leave it.
\<close>

definition move :: "CONFIG \<Rightarrow> Snowflake \<Rightarrow> env \<Rightarrow> Snowflake \<times> env" where
  "move cfg s w =
     (let (v, w') = getSine 1.0 0.005 (get_left s + SWAY_RATE cfg) w;
          s1 = set_left v s
      in (set_top (get_top s1 + FALL_RATE cfg) s1, w'))"

definition out_of_bounds :: "Controller \<Rightarrow> Snowflake \<Rightarrow> bool" where
  "out_of_bounds c s =
     (let b = bounds s
      in rect_x b > document_width c + rect_width b
       \<or> rect_y b > document_height c + rect_height b)"

definition visit :: "nat \<Rightarrow> env \<times> Controller \<Rightarrow> env \<times> Controller" where
  "visit i wc =
     (let (w, c) = wc;
          (s, w1) = move (config c) (snowflakes c ! i) w;
          c1 = c\<lparr>snowflakes := (snowflakes c)[i := s]\<rparr>
      in if out_of_bounds c1 s then spawn (remove s (w1, c1)) else (w1, c1))"

lemma indexOf_range:
  "element s \<in> element ` set xs \<Longrightarrow> 0 \<le> indexOf xs s \<and> indexOf xs s < int (length xs)"
  by (induction xs) (auto simp: Let_def)

lemma length_splice1:
  "0 \<le> k \<Longrightarrow> k < int (length xs) \<Longrightarrow> length (splice1 k xs) = length xs - 1"
  by (auto simp: splice1_def Let_def)

lemma length_remove_present:
  "element s \<in> element ` set (snowflakes c) \<Longrightarrow>
   length (snowflakes (snd (remove s (w, c)))) = length (snowflakes c) - 1"
  using indexOf_range [of s "snowflakes c"] by (simp add: remove_def length_splice1)

lemma length_spawn: "length (snowflakes (snd (spawn wc))) = Suc (length (snowflakes (snd wc)))"
  by (simp add: spawn_def new_Snowflake_def Math_random_def split: prod.splits)

lemma move_eq:
  "move cfg s w =
     (s\<lparr>left_px := stored (1.0 * sin (clock_values w (clock_calls w) * 0.005)
                            + (left_px s + SWAY_RATE cfg)),
        top_px := stored (top_px s + FALL_RATE cfg)\<rparr>,
      w\<lparr>clock_calls := Suc (clock_calls w)\<rparr>)"
  by (simp add: move_def getSine_def Date_now_def get_left_def set_left_def get_top_def
        set_top_def Let_def)

lemma element_move: "element (fst (move cfg s w)) = element s"
  by (simp add: move_eq)

lemma visit_eq:
  "move (config c) (snowflakes c ! i) w = (s, w1) \<Longrightarrow>
   visit i (w, c) =
     (if out_of_bounds (c\<lparr>snowflakes := (snowflakes c)[i := s]\<rparr>) s
      then spawn (remove s (w1, c\<lparr>snowflakes := (snowflakes c)[i := s]\<rparr>))
      else (w1, c\<lparr>snowflakes := (snowflakes c)[i := s]\<rparr>))"
  by (simp add: visit_def Let_def)

lemma length_visit:
  assumes "i < length (snowflakes (snd wc))"
  shows "length (snowflakes (snd (visit i wc))) = length (snowflakes (snd wc))"
proof -
  obtain w c where wc: "wc = (w, c)" by (cases wc)
  obtain s w1 where m: "move (config c) (snowflakes c ! i) w = (s, w1)"
    by (cases "move (config c) (snowflakes c ! i) w")
  let ?c1 = "c\<lparr>snowflakes := (snowflakes c)[i := s]\<rparr>"
  have "s \<in> set (snowflakes ?c1)"
    using assms wc by (simp add: set_update_memI)
  then have "element s \<in> element ` set (snowflakes ?c1)" by blast
  then have "length (snowflakes (snd (remove s (w1, ?c1)))) = length (snowflakes c) - 1"
    using length_remove_present [of s ?c1 w1] by simp
  then have "length (snowflakes (snd (spawn (remove s (w1, ?c1))))) = length (snowflakes c)"
    using assms wc by (simp add: length_spawn)
  then show ?thesis
    using wc by (simp add: visit_eq [OF m])
qed

function animate_loop :: "nat \<Rightarrow> env \<times> Controller \<Rightarrow> env \<times> Controller" where
  "animate_loop i wc =
     (if i < length (snowflakes (snd wc)) then animate_loop (Suc i) (visit i wc) else wc)"
  by pat_completeness auto
termination
  by (relation "measure (\<lambda>(i, wc). length (snowflakes (snd wc)) - i)")
     (auto simp: length_visit)

declare animate_loop.simps [simp del]

definition animate :: "env \<times> Controller \<Rightarrow> env \<times> Controller" where
  "animate wc = animate_loop 0 wc"

subsection \<open>Controller: start, generate, stop, clear, resize\<close>

text \<open>
  \<^verbatim>\<open>
  async generate() {
      for (let i = this.snowflakes.length; i < this.config.LIMIT; i++) {
          await new Promise((resolve) => {setTimeout(() => {resolve()}, Math.random() * 400)});
          if (!this.active) { return; }
          this.spawn();
      }
  }
  \<close>
  The call runs to its first \<open>await\<close> and returns; \<open>generate\<close> is that part. \<open>resume k\<close> is
  what happens when the timeout of the \<open>k\<close>-th suspended call fires: the call goes on
  from its \<open>await\<close> to the next one, or to its end. The length of a delay is not
  modelled: suspended calls may be resumed in any order and at any time.
\<close>

definition generate :: "env \<times> Controller \<Rightarrow> env \<times> Controller" where
  "generate wc =
     (let (w, c) = wc; i = length (snowflakes c)
      in if i < LIMIT (config c)
         then (let (r, w1) = Math_random w in (w1, c\<lparr>generators := generators c @ [i]\<rparr>))
         else (w, c))"

definition resume :: "nat \<Rightarrow> env \<times> Controller \<Rightarrow> env \<times> Controller" where
  "resume k wc =
     (let (w, c) = wc
      in if k < length (generators c)
         then (let i = generators c ! k;
                   others = take k (generators c) @ drop (Suc k) (generators c)
               in if \<not> active c then (w, c\<lparr>generators := others\<rparr>)
                  else (let (w1, c1) = spawn (w, c)
                        in if Suc i < LIMIT (config c1)
                           then (let (r, w2) = Math_random w1
                                 in (w2, c1\<lparr>generators := (generators c1)[k := Suc i]\<rparr>))
                           else (w1, c1\<lparr>generators := others\<rparr>)))
         else (w, c))"

text \<open>
  \<^verbatim>\<open>
  start() {
      if (this.active) { return; }
      this.active = true;
      this.generate();
      this.interval = setInterval(() => { this.animate(); }, 17);
  }
  stop() {
      this.active = false;
      clearInterval(this.interval);
      this.interval = null;
  }
  \<close>
  \<open>tick\<close> is the callback of the timer: it runs only while the timer is armed.
\<close>

definition start :: "env \<times> Controller \<Rightarrow> env \<times> Controller" where
  "start wc =
     (let (w, c) = wc
      in if active c then (w, c)
         else (let (w1, c1) = generate (w, c\<lparr>active := True\<rparr>)
               in (w1, c1\<lparr>interval := True\<rparr>)))"

definition stop :: "env \<times> Controller \<Rightarrow> env \<times> Controller" where
  "stop wc = (let (w, c) = wc in (w, c\<lparr>active := False, interval := False\<rparr>))"

definition tick :: "env \<times> Controller \<Rightarrow> env \<times> Controller" where
  "tick wc = (if interval (snd wc) then animate wc else wc)"

text \<open>
  \<^verbatim>\<open>
  clear() {
      for (const snowflake of this.snowflakes) { snowflake.element.remove(); }
      this.snowflakes = [];
  }
  resize(width, height) {
      for (const snowflake of this.snowflakes) {
          snowflake.left = snowflake.left + (width - this.document.width);
          snowflake.top = snowflake.top + (height - this.document.height);
      }
      this.document.width = width;
      this.document.height = height;
  }
  \<close>
  \<open>shift\<close> is the body of the loop of \<open>resize\<close>.
\<close>

definition clear :: "env \<times> Controller \<Rightarrow> env \<times> Controller" where
  "clear wc =
     (let (w, c) = wc
      in (fold (\<lambda>s. element_remove (element s)) (snowflakes c) w, c\<lparr>snowflakes := []\<rparr>))"

definition shift :: "real \<Rightarrow> real \<Rightarrow> Snowflake \<Rightarrow> Snowflake" where
  "shift dx dy s = (let s1 = set_left (get_left s + dx) s in set_top (get_top s1 + dy) s1)"

definition resize :: "real \<Rightarrow> real \<Rightarrow> Controller \<Rightarrow> Controller" where
  "resize width height c =
     c\<lparr>snowflakes := map (shift (width - document_width c) (height - document_height c))
                          (snowflakes c),
       document_width := width,
       document_height := height\<rparr>"

text \<open>
  The constructor stores the configuration and the size of the viewport
  (\<open>clientWidth\<close>, \<open>clientHeight\<close>), starts with no snowflake, and calls \<open>start()\<close>;
  \<open>this.active\<close> is still undefined then, which \<open>start\<close> reads as false.
\<close>

definition new_Controller :: "CONFIG \<Rightarrow> real \<Rightarrow> real \<Rightarrow> env \<Rightarrow> env \<times> Controller" where
  "new_Controller cfg clientWidth clientHeight w =
     start (w, \<lparr>config = cfg, snowflakes = [], document_width = clientWidth,
                document_height = clientHeight, active = False, interval = False,
                generators = []\<rparr>)"

subsection \<open>aSocketSnow: main and command\<close>

text \<open>
  \<open>main\<close> builds one controller per layer of the configuration, in order, all on the same
  container; the resize listener calls \<open>resize\<close> on each of them.
\<close>

fun new_Controllers :: "CONFIG list \<Rightarrow> real \<Rightarrow> real \<Rightarrow> env \<Rightarrow> env \<times> Controller list" where
  "new_Controllers [] cw ch w = (w, [])"
| "new_Controllers (layer # layers) cw ch w =
     (let (w1, c) = new_Controller layer cw ch w;
          (w2, cs) = new_Controllers layers cw ch w1
      in (w2, c # cs))"

definition main :: "CONFIG list \<Rightarrow> real \<Rightarrow> real \<Rightarrow> env \<Rightarrow> env \<times> Controller list" where
  "main layers clientWidth clientHeight w = new_Controllers layers clientWidth clientHeight w"

definition on_resize :: "real \<Rightarrow> real \<Rightarrow> env \<times> Controller list \<Rightarrow> env \<times> Controller list" where
  "on_resize clientWidth clientHeight m = (fst m, map (resize clientWidth clientHeight) (snd m))"

text \<open>
  \<^verbatim>\<open>
  aSocketSnow.command = function(cmd) {
      if (!aSocketSnow.controllers[0][cmd]) { return; }
      for (const controller of aSocketSnow.controllers) { controller[cmd](); }
  }
  \<close>
  \<open>lookup c cmd\<close> is the value of \<open>c[cmd]\<close>: a method of the class, a field of the object
  (with its truthiness), a member inherited from \<open>Object.prototype\<close>, or undefined.
\<close>

datatype controller_method = Start | Spawn | Generate | Animate | Remove | Clear | Stop | Resize

datatype property = Method controller_method | Field bool | Inherited bool | Undefined

definition class_method :: "string \<Rightarrow> controller_method option" where
  "class_method cmd =
     (if cmd = ''start'' then Some Start
      else if cmd = ''spawn'' then Some Spawn
      else if cmd = ''generate'' then Some Generate
      else if cmd = ''animate'' then Some Animate
      else if cmd = ''remove'' then Some Remove
      else if cmd = ''clear'' then Some Clear
      else if cmd = ''stop'' then Some Stop
      else if cmd = ''resize'' then Some Resize
      else None)"

text \<open>
  The members that every object inherits, each with whether a call without arguments
  returns (\<open>True\<close>) or raises a TypeError (\<open>False\<close>): \<open>constructor\<close> is the class, which
  cannot be called without \<open>new\<close>, and \<open>__proto__\<close> is an object. None of them touches
  the controller.
\<close>

definition inherited_members :: "(string \<times> bool) list" where
  "inherited_members =
     [(''constructor'', False), (''__proto__'', False),
      (''__defineGetter__'', False), (''__defineSetter__'', False),
      (''__lookupGetter__'', True), (''__lookupSetter__'', True),
      (''hasOwnProperty'', True), (''isPrototypeOf'', True),
      (''propertyIsEnumerable'', True), (''toString'', True),
      (''toLocaleString'', True), (''valueOf'', True)]"

definition lookup :: "Controller \<Rightarrow> string \<Rightarrow> property" where
  "lookup c cmd =
     (if cmd = ''body'' \<or> cmd = ''config'' \<or> cmd = ''snowflakes'' \<or> cmd = ''document''
      then Field True
      else if cmd = ''active'' then Field (active c)
      else if cmd = ''interval'' then Field (interval c)
      else (case class_method cmd of
              Some m \<Rightarrow> Method m
            | None \<Rightarrow> (case map_of inherited_members cmd of
                         Some returns \<Rightarrow> Inherited returns
                       | None \<Rightarrow> Undefined)))"

fun truthy :: "property \<Rightarrow> bool" where
  "truthy (Method m) = True"
| "truthy (Field b) = b"
| "truthy (Inherited r) = True"
| "truthy Undefined = False"

text \<open>
  What a call of \<open>command\<close> does: it returns, or it raises a TypeError (both with the
  state they leave behind), or it writes a value that the model has no number for:
  \<open>resize()\<close> without arguments computes \<open>left + (undefined - width)\<close>.
\<close>

datatype outcome =
    Returned "env \<times> Controller list"
  | TypeError "env \<times> Controller list"
  | Not_a_number

fun for_each :: "(env \<times> Controller \<Rightarrow> env \<times> Controller) \<Rightarrow> env \<times> Controller list
    \<Rightarrow> env \<times> Controller list" where
  "for_each f (w, []) = (w, [])"
| "for_each f (w, c # cs) =
     (let (w1, c1) = f (w, c);
          (w2, cs2) = for_each f (w1, cs)
      in (w2, c1 # cs2))"

text \<open>
  \<open>remove()\<close> without an argument: \<open>indexOf(undefined)\<close> is \<open>-1\<close>, \<open>splice(-1, 1)\<close> drops
  the last snowflake of the array, and \<open>undefined.element\<close> raises the TypeError that ends
  the loop at the first controller.
\<close>

fun call :: "controller_method \<Rightarrow> env \<times> Controller list \<Rightarrow> outcome" where
  "call Start m = Returned (for_each start m)"
| "call Spawn m = Returned (for_each spawn m)"
| "call Generate m = Returned (for_each generate m)"
| "call Animate m = Returned (for_each animate m)"
| "call Clear m = Returned (for_each clear m)"
| "call Stop m = Returned (for_each stop m)"
| "call Remove (w, cs) =
     (case cs of
        [] \<Rightarrow> Returned (w, cs)
      | c # rest \<Rightarrow> TypeError (w, c\<lparr>snowflakes := splice1 (- 1) (snowflakes c)\<rparr> # rest))"
| "call Resize (w, cs) = (if cs = [] then Returned (w, cs) else Not_a_number)"

definition command :: "string \<Rightarrow> env \<times> Controller list \<Rightarrow> outcome" where
  "command cmd m =
     (case snd m of
        [] \<Rightarrow> TypeError m
      | c0 # cs \<Rightarrow>
          (if \<not> truthy (lookup c0 cmd) then Returned m
           else (case lookup c0 cmd of
                   Method f \<Rightarrow> call f m
                 | Inherited returns \<Rightarrow> (if returns then Returned m else TypeError m)
                 | _ \<Rightarrow> TypeError m)))"

section \<open>Properties\<close>

subsection \<open>resize\<close>

lemma shift_eq:
  "shift dx dy s = s\<lparr>left_px := stored (left_px s + dx), top_px := stored (top_px s + dy)\<rparr>"
  by (simp add: shift_def get_left_def set_left_def get_top_def set_top_def Let_def)

definition two_flakes :: Controller where
  "two_flakes =
     \<lparr>config = \<lparr>LIMIT = 2, BLUR = 1, FALL_RATE = 5, SWAY_RATE = 1\<rparr>,
      snowflakes = [\<lparr>element = 0, left_px = 30, top_px = 40, blur_px = 1\<rparr>,
                    \<lparr>element = 1, left_px = 70, top_px = 0, blur_px = 1\<rparr>],
      document_width = 100, document_height = 100,
      active = True, interval = True, generators = []\<rparr>"





subsection \<open>clear\<close>

lemma children_element_remove:
  "children (element_remove e w) = removeAll e (children w)"
  by (simp add: element_remove_def)

lemma children_fold_remove:
  "children (fold (\<lambda>s. element_remove (element s)) ss w)
     = filter (\<lambda>e. e \<notin> element ` set ss) (children w)"
proof (induction ss arbitrary: w)
  case Nil
  show ?case by simp
next
  case (Cons s ss)
  have "filter (\<lambda>e. e \<notin> element ` set ss) (removeAll (element s) (children w))
          = filter (\<lambda>e. e \<notin> element ` set (s # ss)) (children w)"
    by (auto simp: removeAll_filter_not_eq intro: filter_cong)
  then show ?case
    by (simp add: Cons.IH children_element_remove)
qed

text \<open>
  C7. After \<open>clear()\<close> the controller has no live snowflake, and no element of a snowflake
  that was live before the call is a child of the container; the other children of the
  container stay, in their order.
\<close>

theorem clear_empties_and_detaches:
  "snowflakes (snd (clear (w, c))) = []
   \<and> length (snowflakes (snd (clear (w, c)))) = 0
   \<and> (\<forall>s \<in> set (snowflakes c). element s \<notin> set (children (fst (clear (w, c)))))
   \<and> children (fst (clear (w, c)))
        = filter (\<lambda>e. e \<notin> element ` set (snowflakes c)) (children w)"
  by (auto simp: clear_def children_fold_remove)

definition page :: env where
  "page = \<lparr>children = [0, 1, 2], created = 3,
           random_values = (\<lambda>k. 0), random_calls = 0,
           clock_values = (\<lambda>k. 0), clock_calls = 0\<rparr>"

theorem clear_empties_and_detaches_witness:
  "\<lparr>element = 1, left_px = 70, top_px = 0, blur_px = 1\<rparr> \<in> set (snowflakes two_flakes)
   \<and> snowflakes (snd (clear (page, two_flakes))) = []
   \<and> 1 \<notin> set (children (fst (clear (page, two_flakes))))
   \<and> children (fst (clear (page, two_flakes))) = [2]"
proof -
  have h: "\<lparr>element = 1, left_px = 70, top_px = 0, blur_px = 1\<rparr> \<in> set (snowflakes two_flakes)"
    by (simp add: two_flakes_def)
  from clear_empties_and_detaches [of page two_flakes] h
  have "snowflakes (snd (clear (page, two_flakes))) = []
      \<and> element \<lparr>element = 1, left_px = 70, top_px = 0, blur_px = 1\<rparr>
          \<notin> set (children (fst (clear (page, two_flakes))))"
    by blast
  moreover have "children (fst (clear (page, two_flakes))) = [2]"
    by (simp add: clear_def two_flakes_def page_def element_remove_def)
  ultimately show ?thesis
    using h by simp
qed

subsection \<open>command\<close>

text \<open>
  When the lookup of the name on the first controller gives a falsy value (undefined
  for a name such as \<open>unknown\<close>, or a field that holds false or null), \<open>command\<close>
  returns and the state of every controller and of the page is as before. A name that
  is not a method of the class never changes the state, but the call can raise.
\<close>

lemma command_without_class_method:
  "(\<not> truthy (lookup c0 cmd) \<longrightarrow> command cmd (w, c0 # cs) = Returned (w, c0 # cs))
   \<and> (class_method cmd = None \<longrightarrow>
        command cmd (w, c0 # cs) = Returned (w, c0 # cs)
      \<or> command cmd (w, c0 # cs) = TypeError (w, c0 # cs))"
  by (auto simp: command_def lookup_def split: property.splits option.splits)

text \<open>
  C8. The guard of \<open>command\<close> tests whether \<open>controllers[0][cmd]\<close> is truthy, not
  whether it is an operation. For \<open>unknown\<close> the lookup is undefined and the dispatch
  does nothing. For \<open>config\<close>, which no controller exposes as an operation, the lookup
  is the configuration object: the guard lets it pass, the loop calls it on the first
  controller, and the dispatch ends in a TypeError instead of doing nothing. The state
  of the controllers is the same after both.
\<close>

theorem command_config_raises:
  "class_method ''config'' = None
   \<and> lookup two_flakes ''config'' = Field True
   \<and> command ''config'' (page, [two_flakes, two_flakes]) = TypeError (page, [two_flakes, two_flakes])
   \<and> lookup two_flakes ''unknown'' = Undefined
   \<and> command ''unknown'' (page, [two_flakes, two_flakes]) = Returned (page, [two_flakes, two_flakes])"
  by (simp add: command_def lookup_def class_method_def inherited_members_def)

subsection \<open>One step of the animation loop\<close>

text \<open>
  The snowflakes of a controller wrap different elements, all created before now: this
  is what makes \<open>indexOf\<close> find the snowflake that the loop is at.
\<close>

definition well_formed :: "env \<times> Controller \<Rightarrow> bool" where
  "well_formed wc =
     (distinct (map element (snowflakes (snd wc)))
      \<and> list_all (\<lambda>s. element s < created (fst wc)) (snowflakes (snd wc)))"

text \<open>The snowflake that \<open>spawn\<close> creates in the environment \<open>w\<close>.\<close>

definition spawned :: "env \<Rightarrow> Controller \<Rightarrow> Snowflake" where
  "spawned w c =
     \<lparr>element = created w,
      left_px = stored (random_values w (random_calls w) * document_width c),
      top_px = 0, blur_px = BLUR (config c)\<rparr>"

lemma indexOf_nth:
  "distinct (map element xs) \<Longrightarrow> i < length xs \<Longrightarrow> element s = element (xs ! i) \<Longrightarrow>
   indexOf xs s = int i"
proof (induction xs arbitrary: i)
  case Nil
  then show ?case by simp
next
  case (Cons y ys)
  show ?case
  proof (cases i)
    case 0
    with Cons.prems show ?thesis by simp
  next
    case (Suc j)
    with Cons.prems have "ys ! j \<in> set ys"
      by simp
    then have "element s \<in> element ` set ys"
      using Cons.prems Suc by auto
    with Cons.prems have "element y \<noteq> element s"
      by auto
    moreover from Cons.prems Suc have "indexOf ys s = int j"
      by (intro Cons.IH) auto
    ultimately show ?thesis
      using Suc by (simp add: Let_def)
  qed
qed

lemma splice1_nth: "i < length xs \<Longrightarrow> splice1 (int i) xs = take i xs @ drop (Suc i) xs"
  by (simp add: splice1_def)

lemma out_of_bounds_snowflakes:
  "out_of_bounds (c\<lparr>snowflakes := xs\<rparr>) s = out_of_bounds c s"
  by (simp add: out_of_bounds_def)

lemma spawn_eq:
  "spawn (w, c) =
     (w\<lparr>random_calls := Suc (random_calls w), children := children w @ [created w],
        created := Suc (created w)\<rparr>,
      c\<lparr>snowflakes := snowflakes c @ [spawned w c]\<rparr>)"
  by (simp add: spawn_def spawned_def Math_random_def new_Snowflake_def stored_numeral)

lemma visit_stays:
  assumes "\<not> out_of_bounds c (fst (move (config c) (snowflakes c ! i) w))"
  shows "visit i (w, c) =
     (w\<lparr>clock_calls := Suc (clock_calls w)\<rparr>,
      c\<lparr>snowflakes := (snowflakes c)[i := fst (move (config c) (snowflakes c ! i) w)]\<rparr>)"
  using assms by (simp add: visit_def move_eq out_of_bounds_snowflakes)

lemma visit_leaves:
  assumes "distinct (map element (snowflakes c))" and "i < length (snowflakes c)"
    and "out_of_bounds c (fst (move (config c) (snowflakes c ! i) w))"
  shows "visit i (w, c) =
     spawn (element_remove (element (snowflakes c ! i)) (w\<lparr>clock_calls := Suc (clock_calls w)\<rparr>),
            c\<lparr>snowflakes := take i (snowflakes c) @ drop (Suc i) (snowflakes c)\<rparr>)"
proof -
  let ?s = "fst (move (config c) (snowflakes c ! i) w)"
  let ?ys = "(snowflakes c)[i := ?s]"
  have el: "element ?s = element (snowflakes c ! i)"
    by (simp add: element_move)
  have "map element ?ys = (map element (snowflakes c))[i := element (snowflakes c ! i)]"
    using el by (simp add: map_update)
  also have "\<dots> = map element (snowflakes c)"
    by (metis list_update_id map_update)
  finally have "map element ?ys = map element (snowflakes c)" .
  then have "distinct (map element ?ys)"
    using assms(1) by simp
  moreover have "element ?s = element (?ys ! i)"
    using assms(2) by simp
  ultimately have "indexOf ?ys ?s = int i"
    using assms(2) by (intro indexOf_nth) auto
  then have "splice1 (indexOf ?ys ?s) ?ys = take i (snowflakes c) @ drop (Suc i) (snowflakes c)"
    using assms(2) by (simp add: splice1_nth)
  then show ?thesis
    using assms(3) el
    by (simp add: visit_def move_eq out_of_bounds_snowflakes remove_def)
qed

text \<open>The snowflake at index \<open>i\<close> after the two assignments of the loop body.\<close>

definition moved :: "env \<Rightarrow> Controller \<Rightarrow> nat \<Rightarrow> Snowflake" where
  "moved w c i = fst (move (config c) (snowflakes c ! i) w)"

lemma spawned_after_remove:
  "spawned (element_remove e (w\<lparr>clock_calls := n\<rparr>)) (c\<lparr>snowflakes := xs\<rparr>) = spawned w c"
  by (simp add: spawned_def element_remove_def)

lemma visit_leaves_snowflakes:
  assumes "distinct (map element (snowflakes c))" and "i < length (snowflakes c)"
    and "out_of_bounds c (moved w c i)"
  shows "snowflakes (snd (visit i (w, c)))
           = take i (snowflakes c) @ drop (Suc i) (snowflakes c) @ [spawned w c]"
    and "children (fst (visit i (w, c)))
           = removeAll (element (snowflakes c ! i)) (children w) @ [created w]"
    and "created (fst (visit i (w, c))) = Suc (created w)"
  using assms
  by (simp_all add: moved_def visit_leaves spawn_eq spawned_after_remove
        children_element_remove)
     (simp_all add: element_remove_def)

lemma length_animate_loop:
  "length (snowflakes (snd (animate_loop i wc))) = length (snowflakes (snd wc))"
proof (induction i wc rule: animate_loop.induct)
  case (1 i wc)
  show ?case
  proof (cases "i < length (snowflakes (snd wc))")
    case True
    then show ?thesis
      using "1.IH" by (subst animate_loop.simps) (simp add: length_visit)
  next
    case False
    then show ?thesis by (subst animate_loop.simps) simp
  qed
qed

lemma element_not_in_rest:
  assumes "distinct (map element xs)" and "i < length xs"
  shows "element (xs ! i) \<notin> element ` set (take i xs @ drop (Suc i) xs)"
proof -
  have "xs = take i xs @ xs ! i # drop (Suc i) xs"
    using assms(2) by (simp add: id_take_nth_drop)
  then have "distinct (map element (take i xs @ xs ! i # drop (Suc i) xs))"
    using assms(1) by simp
  then show ?thesis
    by auto
qed


lemma visit_frame:
  "snd (visit i (w, c)) = c\<lparr>snowflakes := snowflakes (snd (visit i (w, c)))\<rparr>"
  by (simp add: visit_def move_eq spawn_eq remove_def Let_def)

lemma animate_loop_frame:
  "snd (animate_loop i wc) = (snd wc)\<lparr>snowflakes := snowflakes (snd (animate_loop i wc))\<rparr>"
proof (induction i wc rule: animate_loop.induct)
  case (1 i wc)
  show ?case
  proof (cases "i < length (snowflakes (snd wc))")
    case True
    have v: "snd (visit i wc) = (snd wc)\<lparr>snowflakes := snowflakes (snd (visit i wc))\<rparr>"
      using visit_frame [of i "fst wc" "snd wc"] by simp
    have "snd (animate_loop (Suc i) (visit i wc))
            = (snd (visit i wc))\<lparr>snowflakes := snowflakes (snd (animate_loop (Suc i) (visit i wc)))\<rparr>"
      using "1.IH" True by simp
    also have "\<dots> = (snd wc)\<lparr>snowflakes := snowflakes (snd (animate_loop (Suc i) (visit i wc)))\<rparr>"
      by (subst v) simp
    finally show ?thesis
      using True by (subst (1 2) animate_loop.simps) simp
  next
    case False
    then show ?thesis by (subst (1 2) animate_loop.simps) simp
  qed
qed

lemma animate_frame:
  shows "config (snd (animate wc)) = config (snd wc)"
    and "generators (snd (animate wc)) = generators (snd wc)"
    and "active (snd (animate wc)) = active (snd wc)"
    and "interval (snd (animate wc)) = interval (snd wc)"
    and "document_width (snd (animate wc)) = document_width (snd wc)"
    and "document_height (snd (animate wc)) = document_height (snd wc)"
    and "length (snowflakes (snd (animate wc))) = length (snowflakes (snd wc))"
proof -
  have f: "snd (animate wc) = (snd wc)\<lparr>snowflakes := snowflakes (snd (animate wc))\<rparr>"
    unfolding animate_def by (rule animate_loop_frame)
  show "config (snd (animate wc)) = config (snd wc)"
    by (subst f) simp
  show "generators (snd (animate wc)) = generators (snd wc)"
    by (subst f) simp
  show "active (snd (animate wc)) = active (snd wc)"
    by (subst f) simp
  show "interval (snd (animate wc)) = interval (snd wc)"
    by (subst f) simp
  show "document_width (snd (animate wc)) = document_width (snd wc)"
    by (subst f) simp
  show "document_height (snd (animate wc)) = document_height (snd wc)"
    by (subst f) simp
  show "length (snowflakes (snd (animate wc))) = length (snowflakes (snd wc))"
    by (simp add: animate_def length_animate_loop)
qed


subsection \<open>The loop over an array that changes under it\<close>

lemma visit_fields:
  shows "config (snd (visit i (w, c))) = config c"
    and "document_width (snd (visit i (w, c))) = document_width c"
    and "document_height (snd (visit i (w, c))) = document_height c"
  by (subst visit_frame, simp)+

lemma well_formed_visit:
  assumes "well_formed (w, c)" and "i < length (snowflakes c)"
  shows "well_formed (visit i (w, c))"
proof -
  from assms(1) have d: "distinct (map element (snowflakes c))"
    and f: "list_all (\<lambda>s. element s < created w) (snowflakes c)"
    by (simp_all add: well_formed_def)
  have el: "element (moved w c i) = element (snowflakes c ! i)"
    by (simp add: moved_def element_move)
  show ?thesis
  proof (cases "out_of_bounds c (moved w c i)")
    case True
    note v = visit_leaves_snowflakes [OF d assms(2) True]
    let ?rest = "take i (snowflakes c) @ drop (Suc i) (snowflakes c)"
    let ?es = "map element (snowflakes c)"
    have "set (take i ?es) \<inter> set (drop (Suc i) ?es) = {}"
      using d by (intro set_take_disj_set_drop_if_distinct) simp_all
    moreover have "distinct (take i ?es)" "distinct (drop (Suc i) ?es)"
      using d by simp_all
    ultimately have "distinct (take i ?es @ drop (Suc i) ?es)"
      by simp
    moreover have "map element ?rest = take i ?es @ drop (Suc i) ?es"
      by (simp add: take_map drop_map)
    ultimately have dr: "distinct (map element ?rest)"
      by simp
    have "set ?rest \<subseteq> set (snowflakes c)"
      using set_take_subset [of i "snowflakes c"] set_drop_subset [of "Suc i" "snowflakes c"]
      by auto
    then have fr: "\<forall>s \<in> set ?rest. element s < created w"
      using f by (auto simp: list_all_iff)
    then have "created w \<notin> element ` set ?rest"
      by auto
    then have "distinct (map element (?rest @ [spawned w c]))"
      using dr by (auto simp: spawned_def)
    moreover have "list_all (\<lambda>s. element s < Suc (created w)) (?rest @ [spawned w c])"
      using fr by (auto simp: list_all_iff spawned_def less_Suc_eq)
    ultimately show ?thesis
      by (simp add: well_formed_def v(1) v(3))
  next
    case False
    then have v: "visit i (w, c) =
        (w\<lparr>clock_calls := Suc (clock_calls w)\<rparr>, c\<lparr>snowflakes := (snowflakes c)[i := moved w c i]\<rparr>)"
      by (simp add: moved_def visit_stays)
    have "map element ((snowflakes c)[i := moved w c i])
            = (map element (snowflakes c))[i := element (snowflakes c ! i)]"
      by (simp add: map_update el)
    also have "\<dots> = map element (snowflakes c)"
      by (metis list_update_id map_update)
    finally have m: "map element ((snowflakes c)[i := moved w c i]) = map element (snowflakes c)" .
    have "element (moved w c i) < created w"
      using f assms(2) by (simp add: el list_all_length)
    then have "list_all (\<lambda>s. element s < created w) ((snowflakes c)[i := moved w c i])"
      using f by (auto simp: list_all_iff dest!: set_update_subset_insert [THEN subsetD])
    then show ?thesis
      using d by (simp add: well_formed_def v m)
  qed
qed

lemma visit_take:
  assumes "well_formed (w, c)" and "i < length (snowflakes c)" and "j \<le> i"
  shows "take j (snowflakes (snd (visit i (w, c)))) = take j (snowflakes c)"
proof (cases "out_of_bounds c (moved w c i)")
  case True
  from assms(1) have d: "distinct (map element (snowflakes c))"
    by (simp add: well_formed_def)
  show ?thesis
    using assms(2,3) by (simp add: visit_leaves_snowflakes(1) [OF d assms(2) True] min_def)
next
  case False
  then show ?thesis
    using assms(3) by (simp add: moved_def visit_stays)
qed

lemma animate_loop_take:
  "well_formed wc \<Longrightarrow> j \<le> i \<Longrightarrow>
   take j (snowflakes (snd (animate_loop i wc))) = take j (snowflakes (snd wc))"
proof (induction i wc rule: animate_loop.induct)
  case (1 i wc)
  show ?case
  proof (cases "i < length (snowflakes (snd wc))")
    case True
    obtain w c where wc: "wc = (w, c)" by (cases wc)
    have wf: "well_formed (visit i wc)"
      using "1.prems"(1) True wc by (simp add: well_formed_visit)
    have "take j (snowflakes (snd (animate_loop (Suc i) (visit i wc))))
            = take j (snowflakes (snd (visit i wc)))"
      using "1.IH" [OF True wf] "1.prems"(2) by simp
    also have "\<dots> = take j (snowflakes (snd wc))"
      using "1.prems" True wc by (simp add: visit_take)
    finally show ?thesis
      using True by (subst animate_loop.simps) simp
  next
    case False
    then show ?thesis by (subst animate_loop.simps) simp
  qed
qed

text \<open>A tick is the visits of the indices from 0 to the length of the array, in order.\<close>

lemma animate_loop_fold:
  "animate_loop i wc = fold visit [i..<length (snowflakes (snd wc))] wc"
proof (induction i wc rule: animate_loop.induct)
  case (1 i wc)
  show ?case
  proof (cases "i < length (snowflakes (snd wc))")
    case True
    have "animate_loop i wc = animate_loop (Suc i) (visit i wc)"
      using True by (subst animate_loop.simps) simp
    also have "\<dots> = fold visit [Suc i..<length (snowflakes (snd (visit i wc)))] (visit i wc)"
      using "1.IH" True by simp
    also have "\<dots> = fold visit [Suc i..<length (snowflakes (snd wc))] (visit i wc)"
      using True by (simp add: length_visit)
    also have "\<dots> = fold visit [i..<length (snowflakes (snd wc))] wc"
      using True by (simp add: upt_conv_Cons)
    finally show ?thesis .
  next
    case False
    then show ?thesis by (subst animate_loop.simps) simp
  qed
qed

lemma animate_fold:
  "animate (w, c) = fold visit [0..<length (snowflakes c)] (w, c)"
  by (simp add: animate_def animate_loop_fold)

text \<open>
  When no snowflake from index \<open>j\<close> on leaves at its update, the rest of the tick updates
  each of them in turn, the one at index \<open>k\<close> with the \<open>(k - j)\<close>-th next reading of the
  clock.
\<close>

lemma animate_loop_stay:
  assumes "\<forall>k. j \<le> k \<and> k < length (snowflakes c) \<longrightarrow>
             \<not> out_of_bounds c (moved (w\<lparr>clock_calls := clock_calls w + (k - j)\<rparr>) c k)"
    and "k < length (snowflakes c)"
  shows "snowflakes (snd (animate_loop j (w, c))) ! k
           = (if k < j then snowflakes c ! k
              else moved (w\<lparr>clock_calls := clock_calls w + (k - j)\<rparr>) c k)"
  using assms
proof (induction "length (snowflakes c) - j" arbitrary: j w c)
  case 0
  then have "\<not> j < length (snowflakes c)" and "k < j"
    by simp_all
  then show ?case
    by (subst animate_loop.simps) simp
next
  case (Suc n)
  then have j: "j < length (snowflakes c)"
    by simp
  let ?w = "w\<lparr>clock_calls := Suc (clock_calls w)\<rparr>"
  let ?c = "c\<lparr>snowflakes := (snowflakes c)[j := moved w c j]\<rparr>"
  have "\<not> out_of_bounds c (moved (w\<lparr>clock_calls := clock_calls w + (j - j)\<rparr>) c j)"
    using Suc.prems(1) j by blast
  then have "\<not> out_of_bounds c (moved w c j)"
    by simp
  then have v: "visit j (w, c) = (?w, ?c)"
    by (simp add: moved_def visit_stays)
  have loop: "animate_loop j (w, c) = animate_loop (Suc j) (?w, ?c)"
    using j by (subst animate_loop.simps) (simp add: v)
  have n: "n = length (snowflakes ?c) - Suc j"
    using Suc.hyps(2) by simp
  have later: "moved (?w\<lparr>clock_calls := clock_calls ?w + (i - Suc j)\<rparr>) ?c i
                 = moved (w\<lparr>clock_calls := clock_calls w + (i - j)\<rparr>) c i"
    if "Suc j \<le> i" for i
  proof -
    have "Suc (clock_calls w) + (i - Suc j) = clock_calls w + (i - j)"
      using that by simp
    then have "?w\<lparr>clock_calls := clock_calls ?w + (i - Suc j)\<rparr>
                 = w\<lparr>clock_calls := clock_calls w + (i - j)\<rparr>"
      by simp
    moreover have "snowflakes ?c ! i = snowflakes c ! i"
      using that by simp
    ultimately show ?thesis
      by (simp only: moved_def) simp
  qed
  have h: "\<forall>k. Suc j \<le> k \<and> k < length (snowflakes ?c) \<longrightarrow>
             \<not> out_of_bounds ?c (moved (?w\<lparr>clock_calls := clock_calls ?w + (k - Suc j)\<rparr>) ?c k)"
  proof (intro allI impI)
    fix i
    assume i: "Suc j \<le> i \<and> i < length (snowflakes ?c)"
    then have a: "\<not> out_of_bounds c (moved (w\<lparr>clock_calls := clock_calls w + (i - j)\<rparr>) c i)"
      using Suc.prems(1) by simp
    from i have "Suc j \<le> i"
      by simp
    note l = later [OF this]
    show "\<not> out_of_bounds ?c (moved (?w\<lparr>clock_calls := clock_calls ?w + (i - Suc j)\<rparr>) ?c i)"
      unfolding l out_of_bounds_snowflakes by (rule a)
  qed
  have k': "k < length (snowflakes ?c)"
    using Suc.prems(2) by simp
  note ih = Suc.hyps(1) [OF n h k']
  consider "k < j" | "k = j" | "j < k"
    by linarith
  then show ?case
  proof cases
    case 1
    then show ?thesis
      unfolding loop ih by simp
  next
    case 2
    then show ?thesis
      using j unfolding loop ih by simp
  next
    case 3
    then have "Suc j \<le> k"
      by simp
    from later [OF this] 3 show ?thesis
      unfolding loop ih by simp
  qed
qed

text \<open>
  A snowflake stays at its update, whatever the clock reads, when whole numbers within
  the bounds lie above its position: the sine term adds at most 1, and neither the style
  nor the layout carries a position over a whole number.
\<close>

lemma stays_when_bounded:
  assumes "left_px s + SWAY_RATE cfg + 1 \<le> of_int a" and "0 \<le> a" and "a < 10 ^ 6"
    and "of_int a \<le> document_width c + 10"
    and "top_px s + FALL_RATE cfg \<le> of_int b" and "0 \<le> b" and "b < 10 ^ 6"
    and "of_int b \<le> document_height c + 10"
  shows "\<not> out_of_bounds c (fst (move cfg s w))"
proof -
  let ?m = "fst (move cfg s w)"
  let ?x = "1.0 * sin (clock_values w (clock_calls w) * 0.005) + (left_px s + SWAY_RATE cfg)"
  have e: "left_px ?m = stored ?x" and t: "top_px ?m = stored (top_px s + FALL_RATE cfg)"
    by (simp_all add: move_eq)
  have "sin (clock_values w (clock_calls w) * 0.005) \<le> 1"
    by (rule sin_le_one)
  then have "?x \<le> of_int a"
    using assms(1) by linarith
  then have "stored ?x \<le> of_int a"
    using assms(2,3) by (rule stored_le_int)
  then have "layout (stored ?x) \<le> of_int a"
    using assms(2) by (intro layout_le) simp_all
  then have x: "layout (left_px ?m) \<le> document_width c + 10"
    using assms(4) unfolding e by linarith
  have "stored (top_px s + FALL_RATE cfg) \<le> of_int b"
    using assms(5,6,7) by (rule stored_le_int)
  then have "layout (stored (top_px s + FALL_RATE cfg)) \<le> of_int b"
    using assms(6) by (intro layout_le) simp_all
  then have y: "layout (top_px ?m) \<le> document_height c + 10"
    using assms(8) unfolding t by linarith
  from x y show ?thesis
    by (simp add: out_of_bounds_def bounds_def)
qed
text \<open>
  C4. In a tick, the snowflake the loop is at is recycled exactly when, after its position
  update, the left edge of its bounding box exceeds the cached viewport width plus the
  width of the box, or the top edge exceeds the cached viewport height plus the height of
  the box. A recycled snowflake leaves the array and the container, and a new snowflake
  at vertical position 0 is appended to both; a snowflake that is not recycled stays at
  its index with its updated position. A tick is the sequence of these steps, one for
  every index from 0 to the length of the array, each in a state where the property
  holds again; the number of snowflakes is the same before and after every step and
  after the tick.
\<close>

theorem animate_recycles_when_out_of_bounds:
  assumes "well_formed (w, c)" and "i < length (snowflakes c)"
  shows "out_of_bounds c (moved w c i)
           = (rect_x (bounds (moved w c i)) > document_width c + rect_width (bounds (moved w c i))
            \<or> rect_y (bounds (moved w c i)) > document_height c + rect_height (bounds (moved w c i)))
       \<and> (element (snowflakes c ! i) \<notin> element ` set (snowflakes (snd (visit i (w, c))))
            \<longleftrightarrow> out_of_bounds c (moved w c i))
       \<and> (out_of_bounds c (moved w c i) \<longrightarrow>
            snowflakes (snd (visit i (w, c)))
              = take i (snowflakes c) @ drop (Suc i) (snowflakes c) @ [spawned w c]
          \<and> top_px (spawned w c) = 0
          \<and> element (snowflakes c ! i) \<notin> set (children (fst (visit i (w, c))))
          \<and> element (spawned w c) \<in> set (children (fst (visit i (w, c)))))
       \<and> (\<not> out_of_bounds c (moved w c i) \<longrightarrow>
            snowflakes (snd (visit i (w, c))) = (snowflakes c)[i := moved w c i]
          \<and> children (fst (visit i (w, c))) = children w)
       \<and> length (snowflakes (snd (visit i (w, c)))) = length (snowflakes c)
       \<and> well_formed (visit i (w, c))
       \<and> animate (w, c) = fold visit [0..<length (snowflakes c)] (w, c)
       \<and> length (snowflakes (snd (animate (w, c)))) = length (snowflakes c)"
proof -
  from assms(1) have d: "distinct (map element (snowflakes c))"
    and f: "list_all (\<lambda>s. element s < created w) (snowflakes c)"
    by (simp_all add: well_formed_def)
  have old: "element (snowflakes c ! i) < created w"
    using f assms(2) by (simp add: list_all_length)
  have rest: "element (snowflakes c ! i)
                \<notin> element ` set (take i (snowflakes c) @ drop (Suc i) (snowflakes c))"
    using d assms(2) by (rule element_not_in_rest)
  have el: "element (moved w c i) = element (snowflakes c ! i)"
    by (simp add: moved_def element_move)
  have 1: "out_of_bounds c (moved w c i)
           = (rect_x (bounds (moved w c i)) > document_width c + rect_width (bounds (moved w c i))
            \<or> rect_y (bounds (moved w c i)) > document_height c + rect_height (bounds (moved w c i)))"
    by (simp add: out_of_bounds_def Let_def)
  have 5: "length (snowflakes (snd (visit i (w, c)))) = length (snowflakes c)"
    using assms(2) by (simp add: length_visit)
  have 6: "length (snowflakes (snd (animate (w, c)))) = length (snowflakes c)"
    by (simp add: animate_def length_animate_loop)
  have 7: "well_formed (visit i (w, c))"
    using assms by (rule well_formed_visit)
  have 8: "animate (w, c) = fold visit [0..<length (snowflakes c)] (w, c)"
    by (rule animate_fold)
  show ?thesis
  proof (cases "out_of_bounds c (moved w c i)")
    case True
    note v = visit_leaves_snowflakes [OF d assms(2) True]
    have "element (snowflakes c ! i) \<notin> element ` set (snowflakes (snd (visit i (w, c))))"
      using rest old by (auto simp: v(1) spawned_def)
    moreover have "element (snowflakes c ! i) \<notin> set (children (fst (visit i (w, c))))"
      using old by (simp add: v(2))
    moreover have "element (spawned w c) \<in> set (children (fst (visit i (w, c))))"
      by (simp add: v(2) spawned_def)
    moreover have "top_px (spawned w c) = 0"
      by (simp add: spawned_def)
    ultimately show ?thesis
      using True 1 5 6 7 8 v(1) by simp
  next
    case False
    then have v: "visit i (w, c) =
        (w\<lparr>clock_calls := Suc (clock_calls w)\<rparr>, c\<lparr>snowflakes := (snowflakes c)[i := moved w c i]\<rparr>)"
      by (simp add: moved_def visit_stays)
    have "moved w c i \<in> set ((snowflakes c)[i := moved w c i])"
      using assms(2) by (simp add: set_update_memI)
    then have "element (moved w c i) \<in> element ` set ((snowflakes c)[i := moved w c i])"
      by (rule imageI)
    then have "element (snowflakes c ! i) \<in> element ` set (snowflakes (snd (visit i (w, c))))"
      by (simp add: el v)
    then show ?thesis
      using False 1 5 6 7 8 by (simp add: v)
  qed
qed

definition low_flake :: Controller where
  "low_flake =
     two_flakes\<lparr>snowflakes := [\<lparr>element = 0, left_px = 30, top_px = 108, blur_px = 1\<rparr>,
                               \<lparr>element = 1, left_px = 70, top_px = 0, blur_px = 1\<rparr>]\<rparr>"

lemma moved_low_flake:
  "moved page low_flake 0 = \<lparr>element = 0, left_px = 31, top_px = 113, blur_px = 1\<rparr>"
  by (simp add: moved_def move_eq low_flake_def two_flakes_def page_def stored_numeral)

theorem animate_recycles_when_out_of_bounds_witness:
  "well_formed (page, low_flake) \<and> 0 < length (snowflakes low_flake)
   \<and> out_of_bounds low_flake (moved page low_flake 0)
   \<and> snowflakes (snd (visit 0 (page, low_flake)))
        = [\<lparr>element = 1, left_px = 70, top_px = 0, blur_px = 1\<rparr>,
           \<lparr>element = 3, left_px = 0, top_px = 0, blur_px = 1\<rparr>]
   \<and> 0 \<notin> set (children (fst (visit 0 (page, low_flake))))
   \<and> animate (page, low_flake) = visit 1 (visit 0 (page, low_flake))
   \<and> length (snowflakes (snd (animate (page, low_flake)))) = 2"
proof -
  have h1: "well_formed (page, low_flake)"
    by (simp add: well_formed_def low_flake_def two_flakes_def page_def)
  have h2: "0 < length (snowflakes low_flake)"
    by (simp add: low_flake_def)
  have out: "out_of_bounds low_flake (moved page low_flake 0)"
    by (simp only: out_of_bounds_def Let_def moved_low_flake bounds_def)
       (simp add: low_flake_def two_flakes_def layout_def)
  have sp: "spawned page low_flake = \<lparr>element = 3, left_px = 0, top_px = 0, blur_px = 1\<rparr>"
    by (simp add: spawned_def page_def low_flake_def two_flakes_def stored_numeral)
  have two: "[0..<length (snowflakes low_flake)] = [0, 1]"
    by (simp add: low_flake_def upt_rec)
  have rest: "take 0 (snowflakes low_flake) @ drop (Suc 0) (snowflakes low_flake)
            @ [spawned page low_flake]
          = [\<lparr>element = 1, left_px = 70, top_px = 0, blur_px = 1\<rparr>,
             \<lparr>element = 3, left_px = 0, top_px = 0, blur_px = 1\<rparr>]"
    by (simp add: sp) (simp add: low_flake_def)
  have first: "element (snowflakes low_flake ! 0) = 0"
    and len: "length (snowflakes low_flake) = 2"
    by (simp_all add: low_flake_def)
  from animate_recycles_when_out_of_bounds [OF h1 h2] out
  have a: "snowflakes (snd (visit 0 (page, low_flake)))
          = take 0 (snowflakes low_flake) @ drop (Suc 0) (snowflakes low_flake)
            @ [spawned page low_flake]"
    and b: "element (snowflakes low_flake ! 0) \<notin> set (children (fst (visit 0 (page, low_flake))))"
    and c: "animate (page, low_flake) = fold visit [0..<length (snowflakes low_flake)] (page, low_flake)"
    and d: "length (snowflakes (snd (animate (page, low_flake)))) = length (snowflakes low_flake)"
    by blast+
  have a': "snowflakes (snd (visit 0 (page, low_flake)))
        = [\<lparr>element = 1, left_px = 70, top_px = 0, blur_px = 1\<rparr>,
           \<lparr>element = 3, left_px = 0, top_px = 0, blur_px = 1\<rparr>]"
    using a rest by (rule trans)
  have b': "0 \<notin> set (children (fst (visit 0 (page, low_flake))))"
    using b unfolding first .
  have c': "animate (page, low_flake) = visit 1 (visit 0 (page, low_flake))"
    by (simp only: c two) simp
  have d': "length (snowflakes (snd (animate (page, low_flake)))) = 2"
    using d unfolding len .
  from h1 h2 out a' b' c' d' show ?thesis
    by blast
qed

text \<open>
  The test is on the box as it is laid out: a snowflake that its update takes to the
  vertical position 110.005 has its box at 110, which does not exceed 100 plus 10, and
  stays.
\<close>

definition at_the_edge :: Controller where
  "at_the_edge =
     two_flakes\<lparr>snowflakes := [\<lparr>element = 0, left_px = 30, top_px = 105.005, blur_px = 1\<rparr>]\<rparr>"

lemma laid_out_box_example:
  "top_px (moved page at_the_edge 0) = 110.005
   \<and> rect_y (bounds (moved page at_the_edge 0)) = 110
   \<and> \<not> out_of_bounds at_the_edge (moved page at_the_edge 0)"
proof -
  have m: "moved page at_the_edge 0
             = \<lparr>element = 0, left_px = 31, top_px = 110.005, blur_px = 1\<rparr>"
    by (simp add: moved_def move_eq at_the_edge_def two_flakes_def page_def stored_eval)
  show ?thesis
    by (simp only: m out_of_bounds_def Let_def bounds_def)
       (simp add: at_the_edge_def two_flakes_def layout_def)
qed






subsection \<open>A controller with one snowflake\<close>

lemma single_tick_stays:
  assumes "snowflakes c = [s]" and "\<not> out_of_bounds c (fst (move (config c) s w))"
  shows "animate (w, c) =
     (w\<lparr>clock_calls := Suc (clock_calls w)\<rparr>, c\<lparr>snowflakes := [fst (move (config c) s w)]\<rparr>)"
proof -
  have v: "visit 0 (w, c) =
     (w\<lparr>clock_calls := Suc (clock_calls w)\<rparr>, c\<lparr>snowflakes := [fst (move (config c) s w)]\<rparr>)"
    using assms by (simp add: visit_stays)
  have "animate (w, c) = animate_loop (Suc 0) (visit 0 (w, c))"
    using assms(1) by (simp add: animate_def animate_loop.simps [of 0])
  also have "\<dots> = visit 0 (w, c)"
    by (simp add: v animate_loop.simps [of "Suc 0"])
  finally show ?thesis
    by (simp add: v)
qed

lemma single_tick_leaves:
  assumes "snowflakes c = [s]" and "out_of_bounds c (fst (move (config c) s w))"
  shows "snowflakes (snd (animate (w, c))) = [spawned w c]"
    and "children (fst (animate (w, c))) = removeAll (element s) (children w) @ [created w]"
proof -
  have d: "distinct (map element (snowflakes c))" and l: "0 < length (snowflakes c)"
    using assms(1) by simp_all
  have o: "out_of_bounds c (moved w c 0)"
    using assms by (simp add: moved_def)
  note v = visit_leaves_snowflakes [OF d l o]
  have "animate (w, c) = animate_loop (Suc 0) (visit 0 (w, c))"
    using assms(1) by (simp add: animate_def animate_loop.simps [of 0])
  also have "\<dots> = visit 0 (w, c)"
    using v(1) assms(1) by (simp add: animate_loop.simps [of "Suc 0"])
  finally have a: "animate (w, c) = visit 0 (w, c)" .
  show "snowflakes (snd (animate (w, c))) = [spawned w c]"
    using v(1) assms(1) by (simp add: a)
  show "children (fst (animate (w, c))) = removeAll (element s) (children w) @ [created w]"
    using v(2) assms(1) by (simp add: a)
qed

text \<open>
  The scenario: fall rate 10, sway rate 0, a viewport of 100 by 100, one snowflake that
  starts at vertical position 0. Up to the eleventh tick the snowflake is the same
  element, 10 lower at every tick, as long as it cannot have left sideways.
\<close>

lemma scenario_ticks:
  assumes "snowflakes c = [s]" and "FALL_RATE (config c) = 10" and "SWAY_RATE (config c) = 0"
    and "document_width c = 100" and "document_height c = 100"
    and "top_px s = 0" and "left_px s \<le> 98" and "k \<le> 11"
  shows "\<exists>s'. (animate ^^ k) (w, c)
               = (w\<lparr>clock_calls := clock_calls w + k\<rparr>, c\<lparr>snowflakes := [s']\<rparr>)
            \<and> element s' = element s \<and> top_px s' = 10 * real k
            \<and> left_px s' \<le> 98 + real k"
  using assms(8)
proof (induction k)
  case 0
  have "(animate ^^ 0) (w, c) = (w\<lparr>clock_calls := clock_calls w + 0\<rparr>, c\<lparr>snowflakes := [s]\<rparr>)"
    using assms(1) by simp
  then show ?case
    using assms(6,7) by (intro exI [of _ s]) simp
next
  case (Suc k)
  then obtain s' where st: "(animate ^^ k) (w, c)
        = (w\<lparr>clock_calls := clock_calls w + k\<rparr>, c\<lparr>snowflakes := [s']\<rparr>)"
    and el: "element s' = element s" and t: "top_px s' = 10 * real k"
    and x: "left_px s' \<le> 98 + real k"
    by auto
  let ?w = "w\<lparr>clock_calls := clock_calls w + k\<rparr>"
  let ?c = "c\<lparr>snowflakes := [s']\<rparr>"
  let ?s = "fst (move (config ?c) s' ?w)"
  have k: "k \<le> 10"
    using Suc.prems by simp
  have l: "left_px s' + SWAY_RATE (config ?c) + 1 \<le> of_int (99 + int k)"
    using x assms(3) by simp
  have u: "top_px s' + FALL_RATE (config ?c) \<le> of_int (10 * int (Suc k))"
    using t assms(2) by simp
  have "\<not> out_of_bounds ?c ?s"
    using k assms(4,5) by (intro stays_when_bounded [OF l _ _ _ u]) simp_all
  then have "animate (?w, ?c) = (?w\<lparr>clock_calls := Suc (clock_calls ?w)\<rparr>, ?c\<lparr>snowflakes := [?s]\<rparr>)"
    by (intro single_tick_stays) simp_all
  then have "(animate ^^ Suc k) (w, c)
      = (w\<lparr>clock_calls := clock_calls w + Suc k\<rparr>, c\<lparr>snowflakes := [?s]\<rparr>)"
    by (simp add: st)
  moreover have "element ?s = element s"
    by (simp add: element_move el)
  moreover have "top_px ?s = 10 * real (Suc k)"
  proof -
    have "top_px ?s = stored (real (10 * Suc k))"
      using t assms(2) by (simp add: move_eq algebra_simps)
    also have "\<dots> = real (10 * Suc k)"
      using k by (intro stored_of_nat) simp
    finally show ?thesis
      by simp
  qed
  moreover have "left_px ?s \<le> 98 + real (Suc k)"
  proof -
    have sin1: "sin (clock_values ?w (clock_calls ?w) * 0.005) \<le> 1"
      by (rule sin_le_one)
    have r: "(of_int (99 + int k) :: real) = 99 + real k"
      by simp
    have "1.0 * sin (clock_values ?w (clock_calls ?w) * 0.005)
                 + (left_px s' + SWAY_RATE (config ?c)) \<le> of_int (99 + int k)"
      using sin1 l unfolding r by linarith
    then have "stored (1.0 * sin (clock_values ?w (clock_calls ?w) * 0.005)
                 + (left_px s' + SWAY_RATE (config ?c))) \<le> of_int (99 + int k)"
      using k by (intro stored_le_int) simp_all
    then show ?thesis
      by (simp add: move_eq)
  qed
  ultimately show ?case
    by blast
qed

definition scenario_page :: env where
  "scenario_page = \<lparr>children = [0], created = 1,
                    random_values = (\<lambda>k. 0), random_calls = 0,
                    clock_values = (\<lambda>k. 0), clock_calls = 0\<rparr>"

definition scenario_flake :: Snowflake where
  "scenario_flake = \<lparr>element = 0, left_px = 50, top_px = 0, blur_px = 1\<rparr>"

definition scenario :: Controller where
  "scenario =
     \<lparr>config = \<lparr>LIMIT = 1, BLUR = 1, FALL_RATE = 10, SWAY_RATE = 0\<rparr>,
      snowflakes = [scenario_flake],
      document_width = 100, document_height = 100,
      active = True, interval = True, generators = []\<rparr>"

lemma scenario_after_eleven:
  assumes "snowflakes c = [s]" and "FALL_RATE (config c) = 10" and "SWAY_RATE (config c) = 0"
    and "document_width c = 100" and "document_height c = 100"
    and "top_px s = 0" and "left_px s \<le> 98" and "k \<le> 11"
  shows "length (snowflakes (snd ((animate ^^ k) (w, c)))) = 1"
    and "element (hd (snowflakes (snd ((animate ^^ k) (w, c))))) = element s"
    and "top_px (hd (snowflakes (snd ((animate ^^ k) (w, c))))) = 10 * real k"
    and "children (fst ((animate ^^ k) (w, c))) = children w"
  using scenario_ticks [OF assms, of w] by auto

text \<open>
  C2, as stated, fails at the eleventh tick: the snowflake is then at vertical position
  110, which does not exceed 100 plus its height of 10, so it is still the first
  element, attached, and not at 0.
\<close>

theorem scenario_eleventh_tick_counterexample:
  "element (hd (snowflakes (snd ((animate ^^ 11) (scenario_page, scenario))))) = 0
   \<and> top_px (hd (snowflakes (snd ((animate ^^ 11) (scenario_page, scenario))))) = 110
   \<and> length (snowflakes (snd ((animate ^^ 11) (scenario_page, scenario)))) = 1
   \<and> children (fst ((animate ^^ 11) (scenario_page, scenario))) = [0]
   \<and> \<not> out_of_bounds scenario (hd (snowflakes (snd ((animate ^^ 11) (scenario_page, scenario)))))"
proof -
  have a: "snowflakes scenario = [scenario_flake]" "FALL_RATE (config scenario) = 10"
    "SWAY_RATE (config scenario) = 0" "document_width scenario = 100"
    "document_height scenario = 100" "top_px scenario_flake = 0" "left_px scenario_flake \<le> 98"
    by (simp_all add: scenario_def scenario_flake_def)
  have k: "(11::nat) \<le> 11"
    by simp
  obtain s' where st: "(animate ^^ 11) (scenario_page, scenario)
        = (scenario_page\<lparr>clock_calls := clock_calls scenario_page + 11\<rparr>,
           scenario\<lparr>snowflakes := [s']\<rparr>)"
    and el: "element s' = element scenario_flake" and t: "top_px s' = 10 * real 11"
    and x: "left_px s' \<le> 98 + real 11"
    using scenario_ticks [OF a k, of scenario_page] by blast
  have "layout (left_px s') \<le> 109"
    using x by (intro layout_le) simp_all
  moreover have "layout (top_px s') = 110"
    unfolding t by (simp add: layout_def)
  ultimately have "\<not> out_of_bounds scenario s'"
    by (simp add: out_of_bounds_def bounds_def scenario_def)
  then show ?thesis
    using el t by (simp add: st) (simp add: scenario_page_def scenario_flake_def)
qed

text \<open>
  C2, amended. With fall rate 10, sway rate 0 and a viewport of 100 by 100, a single
  snowflake that starts at vertical position 0 (and at a horizontal position of at most
  98, so that the sine term cannot carry it out sideways) is at vertical position 10
  after one tick and at 110 after eleven ticks, still the same element. The twelfth tick
  takes it to 120, which exceeds 110: it is removed, and the controller then holds one
  new snowflake at vertical position 0.
\<close>

theorem scenario_single_snowflake:
  assumes "snowflakes c = [s]" and "FALL_RATE (config c) = 10" and "SWAY_RATE (config c) = 0"
    and "document_width c = 100" and "document_height c = 100"
    and "top_px s = 0" and "left_px s \<le> 98" and "element s < created w"
  shows "length (snowflakes (snd (animate (w, c)))) = 1
       \<and> element (hd (snowflakes (snd (animate (w, c))))) = element s
       \<and> top_px (hd (snowflakes (snd (animate (w, c))))) = 10
       \<and> length (snowflakes (snd ((animate ^^ 11) (w, c)))) = 1
       \<and> element (hd (snowflakes (snd ((animate ^^ 11) (w, c))))) = element s
       \<and> top_px (hd (snowflakes (snd ((animate ^^ 11) (w, c))))) = 110
       \<and> length (snowflakes (snd ((animate ^^ 12) (w, c)))) = 1
       \<and> element (hd (snowflakes (snd ((animate ^^ 12) (w, c))))) = created w
       \<and> element (hd (snowflakes (snd ((animate ^^ 12) (w, c))))) \<noteq> element s
       \<and> top_px (hd (snowflakes (snd ((animate ^^ 12) (w, c))))) = 0
       \<and> element s \<notin> set (children (fst ((animate ^^ 12) (w, c))))"
proof -
  note a = assms(1-7)
  have one: "(animate ^^ 1) (w, c) = animate (w, c)"
    by simp
  have k1: "(1::nat) \<le> 11" and k11: "(11::nat) \<le> 11"
    by simp_all
  note t1 = scenario_after_eleven [OF a k1, of w, unfolded one]
  note t11 = scenario_after_eleven [OF a k11, of w]
  obtain s' where st: "(animate ^^ 11) (w, c)
        = (w\<lparr>clock_calls := clock_calls w + 11\<rparr>, c\<lparr>snowflakes := [s']\<rparr>)"
    and el: "element s' = element s" and t: "top_px s' = 10 * real 11"
    using scenario_ticks [OF a k11, of w] by blast
  let ?w = "w\<lparr>clock_calls := clock_calls w + 11\<rparr>"
  let ?c = "c\<lparr>snowflakes := [s']\<rparr>"
  have twelve: "(animate ^^ 12) (w, c) = animate (?w, ?c)"
  proof -
    have "(12::nat) = Suc 11" by simp
    then have "(animate ^^ 12) (w, c) = animate ((animate ^^ 11) (w, c))"
      by (simp only: funpow.simps o_apply)
    then show ?thesis by (simp only: st)
  qed
  have out: "out_of_bounds ?c (fst (move (config ?c) s' ?w))"
    using t assms(2,5)
    by (simp add: out_of_bounds_def bounds_def move_eq stored_numeral layout_def)
  have sn: "snowflakes ?c = [s']"
    by simp
  note l = single_tick_leaves [OF sn out]
  have "snowflakes (snd ((animate ^^ 12) (w, c))) = [spawned ?w ?c]"
    using l(1) by (simp only: twelve)
  moreover have "children (fst ((animate ^^ 12) (w, c)))
      = removeAll (element s) (children w) @ [created w]"
    using l(2) el by (simp add: twelve)
  ultimately have "length (snowflakes (snd ((animate ^^ 12) (w, c)))) = 1
       \<and> element (hd (snowflakes (snd ((animate ^^ 12) (w, c))))) = created w
       \<and> element (hd (snowflakes (snd ((animate ^^ 12) (w, c))))) \<noteq> element s
       \<and> top_px (hd (snowflakes (snd ((animate ^^ 12) (w, c))))) = 0
       \<and> element s \<notin> set (children (fst ((animate ^^ 12) (w, c))))"
    using assms(8) by (simp add: spawned_def)
  then show ?thesis
    using t1(1-3) t11(1-3) by simp
qed

theorem scenario_single_snowflake_witness:
  "snowflakes scenario = [scenario_flake] \<and> FALL_RATE (config scenario) = 10
   \<and> SWAY_RATE (config scenario) = 0 \<and> LIMIT (config scenario) = 1
   \<and> document_width scenario = 100 \<and> document_height scenario = 100
   \<and> top_px scenario_flake = 0 \<and> left_px scenario_flake \<le> 98
   \<and> element scenario_flake < created scenario_page
   \<and> top_px (hd (snowflakes (snd (animate (scenario_page, scenario))))) = 10
   \<and> top_px (hd (snowflakes (snd ((animate ^^ 11) (scenario_page, scenario))))) = 110
   \<and> element (hd (snowflakes (snd ((animate ^^ 12) (scenario_page, scenario))))) = 1
   \<and> top_px (hd (snowflakes (snd ((animate ^^ 12) (scenario_page, scenario))))) = 0"
proof -
  have a: "snowflakes scenario = [scenario_flake]" "FALL_RATE (config scenario) = 10"
    "SWAY_RATE (config scenario) = 0" "document_width scenario = 100"
    "document_height scenario = 100" "top_px scenario_flake = 0" "left_px scenario_flake \<le> 98"
    "element scenario_flake < created scenario_page"
    by (simp_all add: scenario_def scenario_flake_def scenario_page_def)
  have b: "LIMIT (config scenario) = 1" "created scenario_page = 1"
    by (simp_all add: scenario_def scenario_page_def)
  from scenario_single_snowflake [OF a] a b show ?thesis
    by simp
qed

subsection \<open>Sequences of events on one controller\<close>

text \<open>
  What can happen to a controller once it is constructed: its timer fires (\<open>Tick\<close>), the
  timeout of its \<open>k\<close>-th suspended population call fires (\<open>Timeout k\<close>), the window is
  resized, or one of the documented commands \<open>start\<close>, \<open>stop\<close>, \<open>spawn\<close>, \<open>clear\<close> reaches
  it through \<open>command\<close>.
\<close>

datatype event = Tick | Timeout nat | Resized real real | Cmd_start | Cmd_stop | Cmd_spawn | Cmd_clear

fun step :: "event \<Rightarrow> env \<times> Controller \<Rightarrow> env \<times> Controller" where
  "step Tick wc = tick wc"
| "step (Timeout k) wc = resume k wc"
| "step (Resized width height) wc = (fst wc, resize width height (snd wc))"
| "step Cmd_start wc = start wc"
| "step Cmd_stop wc = stop wc"
| "step Cmd_spawn wc = spawn wc"
| "step Cmd_clear wc = clear wc"

fun run :: "event list \<Rightarrow> env \<times> Controller \<Rightarrow> env \<times> Controller" where
  "run [] wc = wc"
| "run (e # es) wc = run es (step e wc)"

text \<open>
  The events under which the limit is kept: everything but a direct \<open>spawn\<close>, and a
  \<open>start\<close> only when it does not find a population call of an earlier \<open>start\<close> still
  suspended.
\<close>

fun admissible :: "Controller \<Rightarrow> event \<Rightarrow> bool" where
  "admissible c Cmd_spawn = False"
| "admissible c Cmd_start = (active c \<or> generators c = [])"
| "admissible c e = True"

fun admissible_run :: "event list \<Rightarrow> env \<times> Controller \<Rightarrow> bool" where
  "admissible_run [] wc = True"
| "admissible_run (e # es) wc = (admissible (snd wc) e \<and> admissible_run es (step e wc))"

definition within_limit :: "Controller \<Rightarrow> bool" where
  "within_limit c =
     (length (snowflakes c) \<le> LIMIT (config c)
      \<and> length (generators c) \<le> 1
      \<and> list_all (\<lambda>i. length (snowflakes c) \<le> i \<and> i < LIMIT (config c)) (generators c))"

lemma within_limit_resume:
  assumes "within_limit c"
  shows "within_limit (snd (resume k (w, c))) \<and> config (snd (resume k (w, c))) = config c"
proof (cases "generators c")
  case Nil
  then show ?thesis
    using assms by (simp add: resume_def)
next
  case (Cons i rest)
  with assms have g: "generators c = [i]"
    by (simp add: within_limit_def)
  with assms have i: "length (snowflakes c) \<le> i" "i < LIMIT (config c)"
    by (simp_all add: within_limit_def)
  show ?thesis
  proof (cases k)
    case 0
    then show ?thesis
      using assms g i
      by (simp add: resume_def spawn_eq Math_random_def Let_def within_limit_def)
  next
    case (Suc j)
    then show ?thesis
      using assms g by (simp add: resume_def)
  qed
qed

lemma within_limit_step:
  assumes "within_limit (snd wc)" and "admissible (snd wc) e"
  shows "within_limit (snd (step e wc)) \<and> config (snd (step e wc)) = config (snd wc)"
proof (cases e)
  case Tick
  then show ?thesis
    using assms(1) by (simp add: tick_def within_limit_def animate_frame)
next
  case (Timeout k)
  then show ?thesis
    using within_limit_resume [OF assms(1), of k "fst wc"] by simp
next
  case (Resized width height)
  then show ?thesis
    using assms(1) by (simp add: resize_def within_limit_def)
next
  case Cmd_start
  then show ?thesis
    using assms
    by (cases wc)
       (auto simp: start_def generate_def Math_random_def Let_def within_limit_def)
next
  case Cmd_stop
  then show ?thesis
    using assms(1) by (cases wc) (simp add: stop_def within_limit_def)
next
  case Cmd_spawn
  then show ?thesis
    using assms(2) by simp
next
  case Cmd_clear
  then show ?thesis
    using assms(1) by (cases wc) (simp add: clear_def within_limit_def list_all_iff)
qed

lemma within_limit_run:
  "within_limit (snd wc) \<Longrightarrow> admissible_run es wc \<Longrightarrow>
   within_limit (snd (run es wc)) \<and> config (snd (run es wc)) = config (snd wc)"
proof (induction es arbitrary: wc)
  case Nil
  then show ?case by simp
next
  case (Cons e es)
  from Cons.prems have s: "within_limit (snd (step e wc))"
    "config (snd (step e wc)) = config (snd wc)"
    using within_limit_step [of wc e] by simp_all
  from Cons.IH [OF s(1)] Cons.prems(2) s(2) show ?case
    by simp
qed

lemma within_limit_new_Controller:
  "within_limit (snd (new_Controller cfg cw ch w))"
  "config (snd (new_Controller cfg cw ch w)) = cfg"
  by (simp_all add: new_Controller_def start_def generate_def Math_random_def Let_def
        within_limit_def)

definition empty_page :: env where
  "empty_page = \<lparr>children = [], created = 0,
                  random_values = (\<lambda>k. 0), random_calls = 0,
                  clock_values = (\<lambda>k. 0), clock_calls = 0\<rparr>"

definition one_layer :: "env \<times> Controller" where
  "one_layer = new_Controller \<lparr>LIMIT = 1, BLUR = 1, FALL_RATE = 5, SWAY_RATE = 1\<rparr> 100 100 empty_page"

lemma one_layer_eq:
  "one_layer =
     (empty_page\<lparr>random_calls := 1\<rparr>,
      \<lparr>config = \<lparr>LIMIT = 1, BLUR = 1, FALL_RATE = 5, SWAY_RATE = 1\<rparr>, snowflakes = [],
       document_width = 100, document_height = 100, active = True, interval = True,
       generators = [0]\<rparr>)"
  by (simp add: one_layer_def new_Controller_def start_def generate_def Math_random_def
        empty_page_def)

lemma one_layer_filled:
  "resume 0 one_layer =
     (empty_page\<lparr>random_calls := 2, children := [0], created := 1\<rparr>,
      \<lparr>config = \<lparr>LIMIT = 1, BLUR = 1, FALL_RATE = 5, SWAY_RATE = 1\<rparr>,
       snowflakes = [\<lparr>element = 0, left_px = 0, top_px = 0, blur_px = 1\<rparr>],
       document_width = 100, document_height = 100, active = True, interval = True,
       generators = []\<rparr>)"
  by (simp add: one_layer_eq resume_def spawn_eq spawned_def empty_page_def stored_numeral)

text \<open>
  C1, as stated, fails: \<open>spawn\<close> has no guard. A controller of limit 1 whose population
  call has brought it to one snowflake holds two after \<open>command("spawn")\<close>.
\<close>

theorem spawn_command_exceeds_limit_counterexample:
  "command ''spawn'' (fst (resume 0 one_layer), [snd (resume 0 one_layer)])
     = Returned (fst (run [Timeout 0, Cmd_spawn] one_layer),
                 [snd (run [Timeout 0, Cmd_spawn] one_layer)])
   \<and> length (snowflakes (snd (run [Timeout 0, Cmd_spawn] one_layer))) = 2
   \<and> LIMIT (config (snd (run [Timeout 0, Cmd_spawn] one_layer))) = 1"
  by (simp add: one_layer_filled command_def lookup_def class_method_def spawn_eq)

text \<open>
  C1, amended. From its construction on, under every sequence of ticks, timeouts of the
  population call, resizes and the commands \<open>stop\<close>, \<open>clear\<close> and \<open>start\<close> (a \<open>start\<close>
  that does not find an earlier population call still suspended), a controller holds at
  most \<open>LIMIT\<close> snowflakes. A direct \<open>spawn\<close> is outside this: it adds one snowflake
  whatever the count is.
\<close>

theorem count_within_limit:
  assumes "admissible_run es (new_Controller cfg cw ch w)"
  shows "length (snowflakes (snd (run es (new_Controller cfg cw ch w)))) \<le> LIMIT cfg
       \<and> config (snd (run es (new_Controller cfg cw ch w))) = cfg
       \<and> length (snowflakes (snd (step Cmd_spawn (run es (new_Controller cfg cw ch w)))))
           = Suc (length (snowflakes (snd (run es (new_Controller cfg cw ch w)))))"
proof -
  from within_limit_run [OF within_limit_new_Controller(1) assms]
  have "within_limit (snd (run es (new_Controller cfg cw ch w)))"
    and "config (snd (run es (new_Controller cfg cw ch w))) = cfg"
    by (simp_all add: within_limit_new_Controller(2))
  then show ?thesis
    by (simp add: within_limit_def length_spawn)
qed

theorem count_within_limit_witness:
  "admissible_run [Timeout 0, Cmd_stop, Cmd_start, Resized 150 80, Cmd_clear, Tick]
     (new_Controller \<lparr>LIMIT = 1, BLUR = 1, FALL_RATE = 5, SWAY_RATE = 1\<rparr> 100 100 empty_page)
   \<and> length (snowflakes (snd (run [Timeout 0, Cmd_stop, Cmd_start, Resized 150 80, Cmd_clear, Tick]
        (new_Controller \<lparr>LIMIT = 1, BLUR = 1, FALL_RATE = 5, SWAY_RATE = 1\<rparr> 100 100 empty_page))))
       \<le> 1"
proof -
  have h: "admissible_run [Timeout 0, Cmd_stop, Cmd_start, Resized 150 80, Cmd_clear, Tick]
     (new_Controller \<lparr>LIMIT = 1, BLUR = 1, FALL_RATE = 5, SWAY_RATE = 1\<rparr> 100 100 empty_page)"
    using one_layer_filled by (simp add: one_layer_def stop_def)
  from count_within_limit [OF h] h show ?thesis
    by simp
qed

text \<open>
  Why \<open>start\<close> is admissible only when no earlier population call is suspended: after
  \<open>stop\<close> and \<open>start\<close> in quick succession the call of the first \<open>start\<close> finds the
  controller active again when its timeout fires, and goes on beside the call of the
  second \<open>start\<close>.
\<close>

lemma restart_before_timeout_example:
  "length (snowflakes (snd (run [Cmd_stop, Cmd_start, Timeout 0, Timeout 0] one_layer))) = 2"
  by (simp add: one_layer_eq stop_def start_def generate_def resume_def spawn_eq
        Math_random_def empty_page_def)

subsection \<open>A stopped controller\<close>

text \<open>The events that the timers deliver, and a repeated \<open>stop\<close>.\<close>

fun timer_event :: "event \<Rightarrow> bool" where
  "timer_event Tick = True"
| "timer_event (Timeout k) = True"
| "timer_event Cmd_stop = True"
| "timer_event e = False"

definition stopped :: "Controller \<Rightarrow> bool" where
  "stopped c = (\<not> active c \<and> \<not> interval c)"

lemma stopped_step:
  assumes "stopped (snd wc)" and "timer_event e"
  shows "stopped (snd (step e wc)) \<and> snowflakes (snd (step e wc)) = snowflakes (snd wc)
       \<and> children (fst (step e wc)) = children (fst wc)"
proof (cases e)
  case Tick
  then show ?thesis
    using assms(1) by (simp add: tick_def stopped_def)
next
  case (Timeout k)
  then show ?thesis
    using assms(1) by (cases wc) (simp add: resume_def stopped_def Let_def)
next
  case Cmd_stop
  then show ?thesis
    by (cases wc) (simp add: stop_def stopped_def)
qed (use assms(2) in simp_all)

lemma stopped_run:
  "stopped (snd wc) \<Longrightarrow> list_all timer_event es \<Longrightarrow>
   stopped (snd (run es wc)) \<and> snowflakes (snd (run es wc)) = snowflakes (snd wc)
   \<and> children (fst (run es wc)) = children (fst wc)"
proof (induction es arbitrary: wc)
  case Nil
  then show ?case by simp
next
  case (Cons e es)
  from Cons.prems have s: "stopped (snd (step e wc))"
    "snowflakes (snd (step e wc)) = snowflakes (snd wc)"
    "children (fst (step e wc)) = children (fst wc)"
    using stopped_step [of wc e] by simp_all
  from Cons.IH [OF s(1)] Cons.prems(2) s(2,3) show ?case
    by simp
qed

text \<open>
  C5, as stated, fails: \<open>resize\<close> does not look at the active flag. A resize of the
  window after \<open>stop()\<close> moves the snowflakes of the stopped controller.
\<close>

theorem resize_moves_stopped_counterexample:
  "stopped (snd (stop (page, two_flakes)))
   \<and> map left_px (snowflakes (snd (stop (page, two_flakes)))) = [30, 70]
   \<and> map top_px (snowflakes (snd (stop (page, two_flakes)))) = [40, 0]
   \<and> map left_px (snowflakes (snd (run [Resized 150 80] (stop (page, two_flakes))))) = [80, 120]
   \<and> map top_px (snowflakes (snd (run [Resized 150 80] (stop (page, two_flakes))))) = [20, - 20]"
  by (simp add: stop_def stopped_def resize_def shift_eq two_flakes_def stored_numeral)

text \<open>
  C5, amended. After \<open>stop()\<close>, and as long as \<open>start()\<close> is not called, the timer of the
  controller is cleared, so no tick runs, and every population call that resumes
  returns without a spawn: under every sequence of timer events the snowflakes are the
  same, each at the same position, and so are the children of the container.
\<close>

theorem stopped_controller_keeps_positions:
  assumes "list_all timer_event es"
  shows "snowflakes (snd (run es (stop wc))) = snowflakes (snd wc)
       \<and> map left_px (snowflakes (snd (run es (stop wc)))) = map left_px (snowflakes (snd wc))
       \<and> map top_px (snowflakes (snd (run es (stop wc)))) = map top_px (snowflakes (snd wc))
       \<and> children (fst (run es (stop wc))) = children (fst wc)
       \<and> \<not> active (snd (run es (stop wc)))
       \<and> \<not> interval (snd (run es (stop wc)))"
proof -
  have s: "stopped (snd (stop wc))" "snowflakes (snd (stop wc)) = snowflakes (snd wc)"
    "children (fst (stop wc)) = children (fst wc)"
    by (cases wc; simp add: stop_def stopped_def)+
  from stopped_run [OF s(1) assms] s(2,3) show ?thesis
    by (simp add: stopped_def)
qed

definition populating :: "env \<times> Controller" where
  "populating = (page, two_flakes\<lparr>config := \<lparr>LIMIT = 5, BLUR = 1, FALL_RATE = 5, SWAY_RATE = 1\<rparr>,
                                  generators := [2]\<rparr>)"

theorem stopped_controller_keeps_positions_witness:
  "list_all timer_event [Tick, Timeout 0, Tick, Timeout 0]
   \<and> generators (snd (stop populating)) = [2]
   \<and> generators (snd (run [Tick, Timeout 0, Tick, Timeout 0] (stop populating))) = []
   \<and> snowflakes (snd (run [Tick, Timeout 0, Tick, Timeout 0] (stop populating)))
       = [\<lparr>element = 0, left_px = 30, top_px = 40, blur_px = 1\<rparr>,
          \<lparr>element = 1, left_px = 70, top_px = 0, blur_px = 1\<rparr>]"
proof -
  have h: "list_all timer_event [Tick, Timeout 0, Tick, Timeout 0]"
    by simp
  have g: "generators (snd (stop populating)) = [2]
     \<and> generators (snd (run [Tick, Timeout 0, Tick, Timeout 0] (stop populating))) = []"
    by (simp add: populating_def stop_def tick_def resume_def two_flakes_def)
  have "snowflakes (snd populating)
       = [\<lparr>element = 0, left_px = 30, top_px = 40, blur_px = 1\<rparr>,
          \<lparr>element = 1, left_px = 70, top_px = 0, blur_px = 1\<rparr>]"
    by (simp add: populating_def two_flakes_def)
  with stopped_controller_keeps_positions [OF h, of populating] h g show ?thesis
    by simp
qed

subsection \<open>Recycling during the loop\<close>

definition last_flake :: Controller where
  "last_flake =
     two_flakes\<lparr>snowflakes := [\<lparr>element = 0, left_px = 30, top_px = 108, blur_px = 1\<rparr>]\<rparr>"

definition two_leave :: Controller where
  "two_leave =
     two_flakes\<lparr>snowflakes := [\<lparr>element = 0, left_px = 30, top_px = 108, blur_px = 1\<rparr>,
                               \<lparr>element = 1, left_px = 70, top_px = 0, blur_px = 1\<rparr>,
                               \<lparr>element = 2, left_px = 50, top_px = 107, blur_px = 1\<rparr>]\<rparr>"

lemmas tick_eval = animate_fold visit_def move_eq out_of_bounds_def bounds_def layout_def
  remove_def spawn_eq spawned_def splice1_def element_remove_def moved_def Let_def
  stored_numeral upt_rec

text \<open>
  C10, as stated, fails in two ways, both with fall rate 5. When the recycled snowflake
  is the last of the array, the replacement takes its index, the iterator is already
  past it, and the replacement (element 3) ends the tick at vertical position 0. When
  the first and the third of three snowflakes are recycled in one tick, the replacement
  of the first (element 3) moves down to index 1 just as the iterator goes on to
  index 2, and ends the tick at vertical position 0 as well.
\<close>

theorem replacement_not_visited_counterexample:
  "out_of_bounds last_flake (moved page last_flake 0)
   \<and> snowflakes (snd (animate (page, last_flake)))
        = [\<lparr>element = 3, left_px = 0, top_px = 0, blur_px = 1\<rparr>]
   \<and> FALL_RATE (config last_flake) = 5
   \<and> out_of_bounds two_leave (moved page two_leave 0)
   \<and> snowflakes (snd (animate (page, two_leave)))
        = [\<lparr>element = 1, left_px = 70, top_px = 0, blur_px = 1\<rparr>,
           \<lparr>element = 3, left_px = 0, top_px = 0, blur_px = 1\<rparr>,
           \<lparr>element = 4, left_px = 1, top_px = 5, blur_px = 1\<rparr>]
   \<and> FALL_RATE (config two_leave) = 5"
  by (simp add: tick_eval last_flake_def two_leave_def two_flakes_def page_def)

lemma nth_after_recycling:
  assumes "i \<le> k" and "k < length xs"
  shows "(take i xs @ drop (Suc i) xs @ [new]) ! k
           = (if Suc k < length xs then xs ! Suc k else new)"
proof -
  have "(take i xs @ drop (Suc i) xs @ [new]) ! k = (drop (Suc i) xs @ [new]) ! (k - i)"
    using assms by (simp add: nth_append)
  also have "\<dots> = (if Suc k < length xs then xs ! Suc k else new)"
    using assms by (auto simp: nth_append)
  finally show ?thesis .
qed

text \<open>
  C10, amended. \<open>animate_loop i (w, c)\<close> is the rest of a tick whose iterator stands at
  index \<open>i\<close> (\<open>animate\<close> is \<open>animate_loop 0\<close>). When the snowflake at index \<open>i\<close> is
  recycled there:
  \<^item> if \<open>i\<close> is not the last index, the snowflake that was at index \<open>i + 1\<close> is at index
    \<open>i\<close> at the end of the tick, with the position it had: it gets no update;
  \<^item> if \<open>i\<close> is the last index, the replacement takes index \<open>i\<close>, is not visited, and
    ends the tick at vertical position 0;
  \<^item> if \<open>i\<close> is not the last index and neither a snowflake after index \<open>i + 1\<close> nor the
    replacement leaves the bounds at its update, the replacement is visited in the same
    tick and ends it, last of the array, updated once: its vertical position is
    \<open>FALL_RATE\<close> as the style keeps it.
\<close>

theorem recycling_skips_the_next_snowflake:
  assumes "well_formed (w, c)" and "i < length (snowflakes c)"
    and "out_of_bounds c (moved w c i)"
  shows "(Suc i < length (snowflakes c) \<longrightarrow>
            snowflakes (snd (animate_loop i (w, c))) ! i = snowflakes c ! Suc i)
       \<and> (Suc i = length (snowflakes c) \<longrightarrow>
            snowflakes (snd (animate_loop i (w, c))) = take i (snowflakes c) @ [spawned w c]
          \<and> top_px (last (snowflakes (snd (animate_loop i (w, c))))) = 0)
       \<and> (Suc i < length (snowflakes c)
          \<and> (\<forall>k. Suc (Suc i) \<le> k \<and> k < length (snowflakes c) \<longrightarrow>
                 \<not> out_of_bounds c
                     (moved (w\<lparr>clock_calls := clock_calls w + (k - Suc i)\<rparr>) c k))
          \<and> \<not> out_of_bounds c
                 (fst (move (config c) (spawned w c)
                        (w\<lparr>clock_calls := clock_calls w + (length (snowflakes c) - Suc i)\<rparr>)))
          \<longrightarrow>
            last (snowflakes (snd (animate_loop i (w, c))))
              = fst (move (config c) (spawned w c)
                      (w\<lparr>clock_calls := clock_calls w + (length (snowflakes c) - Suc i)\<rparr>))
          \<and> element (last (snowflakes (snd (animate_loop i (w, c))))) = created w
          \<and> top_px (last (snowflakes (snd (animate_loop i (w, c)))))
               = stored (FALL_RATE (config c)))"
proof -
  let ?xs = "snowflakes c"
  let ?n = "length ?xs"
  let ?L = "take i ?xs @ drop (Suc i) ?xs @ [spawned w c]"
  let ?final = "snowflakes (snd (animate_loop i (w, c)))"
  let ?at = "\<lambda>t. w\<lparr>clock_calls := clock_calls w + t\<rparr>"
  from assms(1) have d: "distinct (map element ?xs)"
    by (simp add: well_formed_def)
  obtain w1 c1 where v: "visit i (w, c) = (w1, c1)"
    by (cases "visit i (w, c)")
  have L: "snowflakes c1 = ?L"
    using visit_leaves_snowflakes(1) [OF d assms(2,3)] by (simp add: v)
  have n: "length (snowflakes c1) = ?n"
    using length_visit [of i "(w, c)"] assms(2) by (simp add: v)
  have fields: "config c1 = config c" "document_width c1 = document_width c"
    "document_height c1 = document_height c"
    using visit_fields [of i w c] by (simp_all add: v)
  have "visit i (w, c) =
     spawn (element_remove (element (snowflakes c ! i)) (w\<lparr>clock_calls := Suc (clock_calls w)\<rparr>),
            c\<lparr>snowflakes := take i (snowflakes c) @ drop (Suc i) (snowflakes c)\<rparr>)"
    using visit_leaves [OF d assms(2)] assms(3) by (simp add: moved_def)
  then have "w1 = fst (spawn (element_remove (element (snowflakes c ! i))
                                (w\<lparr>clock_calls := Suc (clock_calls w)\<rparr>),
            c\<lparr>snowflakes := take i (snowflakes c) @ drop (Suc i) (snowflakes c)\<rparr>))"
    using v by (metis fst_conv)
  then have clock: "clock_values w1 = clock_values w" "clock_calls w1 = Suc (clock_calls w)"
    by (simp_all add: spawn_eq element_remove_def)
  have wf1: "well_formed (w1, c1)"
    using well_formed_visit [OF assms(1,2)] by (simp add: v)
  have loop: "animate_loop i (w, c) = animate_loop (Suc i) (w1, c1)"
    using assms(2) by (subst animate_loop.simps) (simp add: v)
  have len: "length ?final = ?n"
    by (simp add: length_animate_loop)
  have a: "?final ! i = ?xs ! Suc i" if "Suc i < ?n"
  proof -
    have t: "take (Suc i) ?final = take (Suc i) (snowflakes c1)"
      using animate_loop_take [OF wf1, of "Suc i" "Suc i"] unfolding loop by simp
    have "?final ! i = take (Suc i) ?final ! i"
      by simp
    also have "\<dots> = take (Suc i) (snowflakes c1) ! i"
      by (simp only: t)
    also have "\<dots> = snowflakes c1 ! i"
      by simp
    also have "\<dots> = ?L ! i"
      by (simp only: L)
    also have "\<dots> = ?xs ! Suc i"
      using that assms(2) by (simp add: nth_after_recycling)
    finally show ?thesis .
  qed
  have b: "?final = take i ?xs @ [spawned w c] \<and> top_px (last ?final) = 0" if "Suc i = ?n"
  proof -
    have "animate_loop (Suc i) (w1, c1) = (w1, c1)"
      using that n by (subst animate_loop.simps) simp
    then have "?final = ?L"
      by (simp add: loop L)
    then show ?thesis
      using that by (simp add: spawned_def)
  qed
  have c: "last ?final = fst (move (config c) (spawned w c) (?at (?n - Suc i)))
         \<and> element (last ?final) = created w
         \<and> top_px (last ?final) = stored (FALL_RATE (config c))"
    if last: "Suc i < ?n"
      and later: "\<forall>k. Suc (Suc i) \<le> k \<and> k < ?n \<longrightarrow> \<not> out_of_bounds c (moved (?at (k - Suc i)) c k)"
      and new: "\<not> out_of_bounds c (fst (move (config c) (spawned w c) (?at (?n - Suc i))))"
  proof -
    have same: "out_of_bounds c1 s = out_of_bounds c s" for s
      by (simp add: out_of_bounds_def fields)
    have mv: "moved (w1\<lparr>clock_calls := clock_calls w1 + (k - Suc i)\<rparr>) c1 k
                = fst (move (config c) (if Suc k < ?n then ?xs ! Suc k else spawned w c)
                        (?at (Suc k - Suc i)))"
      if k: "Suc i \<le> k" "k < ?n" for k
    proof -
      have e: "clock_calls w1 + (k - Suc i) = clock_calls w + (Suc k - Suc i)"
        using k(1) clock(2) by simp
      have "snowflakes c1 ! k = (if Suc k < ?n then ?xs ! Suc k else spawned w c)"
        unfolding L using k by (intro nth_after_recycling) simp_all
      then show ?thesis
        by (simp add: moved_def fields move_eq clock(1) e)
    qed
    have h: "\<forall>k. Suc i \<le> k \<and> k < length (snowflakes c1) \<longrightarrow>
               \<not> out_of_bounds c1 (moved (w1\<lparr>clock_calls := clock_calls w1 + (k - Suc i)\<rparr>) c1 k)"
    proof (intro allI impI)
      fix k
      assume k: "Suc i \<le> k \<and> k < length (snowflakes c1)"
      then have k': "Suc i \<le> k" "k < ?n"
        using n by simp_all
      show "\<not> out_of_bounds c1 (moved (w1\<lparr>clock_calls := clock_calls w1 + (k - Suc i)\<rparr>) c1 k)"
      proof (cases "Suc k < ?n")
        case True
        then have "Suc (Suc i) \<le> Suc k \<and> Suc k < ?n"
          using k'(1) by simp
        with later have "\<not> out_of_bounds c (moved (?at (Suc k - Suc i)) c (Suc k))"
          by blast
        then show ?thesis
          using True unfolding same mv [OF k'] by (simp add: moved_def)
      next
        case False
        then have "Suc k = ?n"
          using k'(2) by simp
        then show ?thesis
          using new False unfolding same mv [OF k'] by simp
      qed
    qed
    have k: "?n - 1 < length (snowflakes c1)" and k': "Suc i \<le> ?n - 1" "?n - 1 < ?n"
      using last n by simp_all
    have "?final ! (?n - 1)
            = moved (w1\<lparr>clock_calls := clock_calls w1 + (?n - 1 - Suc i)\<rparr>) c1 (?n - 1)"
      using animate_loop_stay [OF h k] last by (simp add: loop)
    also have "\<dots> = fst (move (config c) (spawned w c) (?at (?n - Suc i)))"
      using last unfolding mv [OF k'] by simp
    finally have f: "?final ! (?n - 1) = fst (move (config c) (spawned w c) (?at (?n - Suc i)))" .
    have "last ?final = ?final ! (?n - 1)"
    proof -
      have "?final \<noteq> []"
        using len last by auto
      then have "last ?final = ?final ! (length ?final - 1)"
        by (rule last_conv_nth)
      then show ?thesis
        by (simp only: len)
    qed
    then have "last ?final = fst (move (config c) (spawned w c) (?at (?n - Suc i)))"
      by (simp only: f)
    then show ?thesis
      by (simp add: move_eq spawned_def)
  qed
  from a b c show ?thesis
    by blast
qed

definition three_flakes :: Controller where
  "three_flakes =
     two_flakes\<lparr>snowflakes := [\<lparr>element = 0, left_px = 30, top_px = 108, blur_px = 1\<rparr>,
                               \<lparr>element = 1, left_px = 70, top_px = 0, blur_px = 1\<rparr>,
                               \<lparr>element = 2, left_px = 109, top_px = 20, blur_px = 1\<rparr>]\<rparr>"

theorem recycling_skips_the_next_snowflake_witness:
  "well_formed (page, three_flakes) \<and> 0 < length (snowflakes three_flakes)
   \<and> out_of_bounds three_flakes (moved page three_flakes 0)
   \<and> Suc 0 < length (snowflakes three_flakes)
   \<and> left_px (moved (page\<lparr>clock_calls := clock_calls page + (2 - Suc 0)\<rparr>) three_flakes 2) = 110
   \<and> \<not> out_of_bounds three_flakes
         (moved (page\<lparr>clock_calls := clock_calls page + (2 - Suc 0)\<rparr>) three_flakes 2)
   \<and> \<not> out_of_bounds three_flakes
         (fst (move (config three_flakes) (spawned page three_flakes)
                (page\<lparr>clock_calls := clock_calls page + (length (snowflakes three_flakes) - Suc 0)\<rparr>)))
   \<and> snowflakes (snd (animate (page, three_flakes))) ! 0
        = \<lparr>element = 1, left_px = 70, top_px = 0, blur_px = 1\<rparr>
   \<and> last (snowflakes (snd (animate (page, three_flakes))))
        = \<lparr>element = 3, left_px = 1, top_px = 5, blur_px = 1\<rparr>"
proof -
  have h1: "well_formed (page, three_flakes)"
    by (simp add: well_formed_def three_flakes_def two_flakes_def page_def)
  have h2: "0 < length (snowflakes three_flakes)" and h3: "Suc 0 < length (snowflakes three_flakes)"
    by (simp_all add: three_flakes_def)
  have out: "out_of_bounds three_flakes (moved page three_flakes 0)"
    by (simp add: out_of_bounds_def bounds_def layout_def moved_def move_eq stored_numeral
          three_flakes_def two_flakes_def page_def)
  have third: "left_px (moved (page\<lparr>clock_calls := clock_calls page + (2 - Suc 0)\<rparr>) three_flakes 2) = 110
     \<and> \<not> out_of_bounds three_flakes
         (moved (page\<lparr>clock_calls := clock_calls page + (2 - Suc 0)\<rparr>) three_flakes 2)"
    by (simp add: out_of_bounds_def bounds_def layout_def moved_def move_eq stored_numeral
          three_flakes_def two_flakes_def page_def)
  have later: "\<forall>k. Suc (Suc 0) \<le> k \<and> k < length (snowflakes three_flakes) \<longrightarrow>
      \<not> out_of_bounds three_flakes
          (moved (page\<lparr>clock_calls := clock_calls page + (k - Suc 0)\<rparr>) three_flakes k)"
  proof (intro allI impI)
    fix k
    assume "Suc (Suc 0) \<le> k \<and> k < length (snowflakes three_flakes)"
    then have "k = 2"
      by (simp add: three_flakes_def)
    then show "\<not> out_of_bounds three_flakes
          (moved (page\<lparr>clock_calls := clock_calls page + (k - Suc 0)\<rparr>) three_flakes k)"
      using third by simp
  qed
  let ?new = "fst (move (config three_flakes) (spawned page three_flakes)
                (page\<lparr>clock_calls := clock_calls page + (length (snowflakes three_flakes) - Suc 0)\<rparr>))"
  have m: "?new = \<lparr>element = 3, left_px = 1, top_px = 5, blur_px = 1\<rparr>"
    by (simp add: move_eq spawned_def stored_numeral three_flakes_def two_flakes_def page_def)
  have new: "\<not> out_of_bounds three_flakes ?new"
    unfolding m
    by (simp add: out_of_bounds_def bounds_def layout_def three_flakes_def two_flakes_def)
  have second: "snowflakes three_flakes ! Suc 0 = \<lparr>element = 1, left_px = 70, top_px = 0, blur_px = 1\<rparr>"
    by (simp add: three_flakes_def)
  from recycling_skips_the_next_snowflake [OF h1 h2 out] h3 later new
  have "snowflakes (snd (animate_loop 0 (page, three_flakes))) ! 0 = snowflakes three_flakes ! Suc 0"
    and "last (snowflakes (snd (animate_loop 0 (page, three_flakes)))) = ?new"
    by blast+
  then have "snowflakes (snd (animate (page, three_flakes))) ! 0
        = \<lparr>element = 1, left_px = 70, top_px = 0, blur_px = 1\<rparr>"
    and "last (snowflakes (snd (animate (page, three_flakes))))
        = \<lparr>element = 3, left_px = 1, top_px = 5, blur_px = 1\<rparr>"
    unfolding animate_def second m by blast+
  then show ?thesis
    using h1 h2 h3 out third new by blast
qed

end
